theory Spec2Isabelle
  imports Main "HOL-Library.Word" "HOL-Library.AList"
begin

section \<open>net-pinger: the probing and aggregation engine of src/src/ping.go\<close>

text \<open>
  The engine of \<^verbatim>\<open>ping.go\<close> is embedded as state-passing functions over a record of the
  \<^verbatim>\<open>Ping\<close> struct. What the Go code receives from outside (the parsed command line, the
  result of opening the socket, the result of each write, the datagrams the socket
  delivers and the replies that arrive before the round's timer fires) is an explicit
  input.
  What it does to the outside (log records, the commands it runs, the usage text) is
  appended to the field \<open>trace\<close>, in the order of the calls.

  Numbers: the thresholds are \<^verbatim>\<open>uint8\<close> and the identifier and sequence number are
  \<^verbatim>\<open>uint16\<close>, modelled as words, so that \<^verbatim>\<open>p.seq++\<close> and the conversions
  \<^verbatim>\<open>uint8(len(p.ips))\<close>, \<^verbatim>\<open>uint16(i.echo.ID)\<close> wrap as in Go. The counters
  \<^verbatim>\<open>pingsInState\<close> and \<^verbatim>\<open>totalAlive\<close> are Go \<^verbatim>\<open>int\<close> and are modelled as
  unbounded integers; lemma \<open>Run_counters_bounded\<close> below shows that their magnitude never
  exceeds the number of outcomes processed so far (every reply, and one deadline per host
  and round), so the model and the machine agree in every run that processes fewer than
  \<open>2^31\<close> outcomes, \<open>2^63\<close> where \<^verbatim>\<open>int\<close> has 64 bits.
\<close>

type_synonym uint8 = "8 word"
type_synonym uint16 = "16 word"

text \<open>A Go \<^verbatim>\<open>error\<close> value, by its message.\<close>

type_synonym error = string

subsection \<open>Observable effects\<close>

datatype level = Debug | Info | Error

text \<open>The zap fields the code attaches to a log record.\<close>

datatype field =
    Zap_String string string
  | Zap_Int string int
  | Zap_Uint8 string uint8
  | Zap_Error error

datatype effect =
    Log level string "field list"  \<comment> \<open>\<^verbatim>\<open>p.log.Debug/Info/Error(msg, fields...)\<close>\<close>
  | Exec string                    \<comment> \<open>\<^verbatim>\<open>exec.Command("/bin/sh", "-c", command)\<close> run once\<close>
  | Usage                          \<comment> \<open>\<^verbatim>\<open>pflag.Usage()\<close>: prints, does not exit\<close>

subsection \<open>Data\<close>

text \<open>
  An address is represented by its \<^verbatim>\<open>ip.String()\<close> form, the key of \<^verbatim>\<open>p.send\<close>; the
  field \<^verbatim>\<open>addr\<close> of \<^verbatim>\<open>remoteInfo\<close> is the same address wrapped for the socket.
\<close>

record remoteInfo =
  ip :: string
  isUp :: bool
  pingsInState :: int
  gotReply :: bool

text \<open>
  \<^verbatim>\<open>p.send\<close> is a Go map of pointers. It is an association list with distinct keys here;
  assignment is \<open>AList.update\<close>, lookup is \<open>map_of\<close>, and \<^verbatim>\<open>range\<close> visits the entries
  in list order. Go leaves the order open; the theorems about all runs are proved from
  properties of the single steps (lemma \<open>Run_invariant\<close>), which hold in any order, and
  the concrete runs have one host.
\<close>

record Ping =
  ips :: "string list"
  waitTimeout :: int
  pauseDuration :: int
  aliveCount :: uint8
  deadCount :: uint8
  groupAlive :: uint8
  groupDead :: uint8
  cmdAlive :: string
  cmdDead :: string
  send :: "(string \<times> remoteInfo) list"
  pid :: uint16
  seq :: uint16
  totalAlive :: int
  isTotalAlive :: bool
  trace :: "effect list"

record Echo =
  ID :: int
  Seq :: int
  Data :: "8 word list"

record icmpInfo =
  ip :: string
  echo :: Echo

text \<open>
  An \<^verbatim>\<open>icmp.Message\<close>, as far as the code looks at it: its \<^verbatim>\<open>Type\<close> is an
  \<^verbatim>\<open>ipv4.ICMPType\<close>, an \<^verbatim>\<open>ipv6.ICMPType\<close> or something else, its \<^verbatim>\<open>Body\<close> is an
  \<^verbatim>\<open>*icmp.Echo\<close>, nil, or another message body, given with the result of its own
  \<^verbatim>\<open>Marshal\<close>.
\<close>

datatype icmp_type = ICMPv4 nat | ICMPv6 nat | Other_type

datatype body = Echo_body Echo | No_body | Other_body "error + 8 word list"

record Message =
  Type :: icmp_type
  Code :: int
  Body :: body

text \<open>
  What one pass of the loop in the goroutine of \<^verbatim>\<open>recv\<close> gets from the socket and the
  parser: the results \<^verbatim>\<open>n, peer, err\<close> of \<^verbatim>\<open>p.conn.ReadFrom\<close> (the peer is a
  \<^verbatim>\<open>*net.UDPAddr\<close> with its address, or not) and the result of \<^verbatim>\<open>icmp.ParseMessage\<close>.
\<close>

datatype peer = UDPAddr string | Other_addr

record datagram =
  read_err :: "error option"
  read_n :: int
  read_peer :: peer
  peer_String :: string
  parsed :: "error + Message"

text \<open>What that pass does with the channel: nothing, \<^verbatim>\<open>close(ch)\<close>, or \<^verbatim>\<open>ch <- ...\<close>.\<close>

datatype delivery = Dropped | Closed | Sent icmpInfo

text \<open>
  The command line after \<^verbatim>\<open>pflag.Parse()\<close>: each flag is absent (\<open>None\<close>) or given with
  a value of its declared type, \<open>args\<close> are the positional arguments.
\<close>

record cmdline =
  verbose :: "bool option"
  alive_cmd :: "string option"
  dead_cmd :: "string option"
  wait :: "int option"
  pause :: "int option"
  alive_count :: "uint8 option"
  dead_count :: "uint8 option"
  group_alive :: "uint8 option"
  group_dead :: "uint8 option"
  args :: "string list"

text \<open>What the constructor reads from the operating system.\<close>

record env =
  parseIP :: "string \<Rightarrow> string option"  \<comment> \<open>\<^verbatim>\<open>net.ParseIP\<close>; \<open>None\<close> is the nil address\<close>
  listenPacket :: "error option"            \<comment> \<open>the error of \<^verbatim>\<open>icmp.ListenPacket\<close>, if any\<close>
  goos_linux :: bool
  localPort :: int
  getpid :: int

text \<open>The inputs of one round of \<^verbatim>\<open>Run\<close>.\<close>

record round_input =
  encoding :: "8 word list"                 \<comment> \<open>the bytes \<^verbatim>\<open>wm.Marshal(nil)\<close> produces\<close>
  writeTo :: "string \<Rightarrow> error option"       \<comment> \<open>error of \<^verbatim>\<open>p.conn.WriteTo\<close> per address\<close>
  replies :: "icmpInfo list"                \<comment> \<open>what \<^verbatim>\<open>recv\<close> delivers before the timer fires\<close>

subsection \<open>Conversions\<close>

definition uint16 :: "int \<Rightarrow> uint16" where
  "uint16 n = word_of_int n"

definition uint8_of_len :: "nat \<Rightarrow> uint8" where
  "uint8_of_len n = of_nat n"

definition second :: int where
  "second = 1000000000"

subsection \<open>Logging and commands\<close>

definition emit :: "effect \<Rightarrow> Ping \<Rightarrow> Ping" where
  "emit e p = p\<lparr>trace := trace p @ [e]\<rparr>"

definition runCommand :: "string \<Rightarrow> Ping \<Rightarrow> Ping" where
  "runCommand command p =
     emit (Exec command) (emit (Log Debug ''Running command'' [Zap_String ''command'' command]) p)"

subsection \<open>The group aggregator\<close>

definition handleHostAlive :: "Ping \<Rightarrow> Ping" where
  "handleHostAlive p0 =
     (let p = p0\<lparr>totalAlive := totalAlive p0 + 1\<rparr> in
      if \<not> isTotalAlive p \<and> totalAlive p \<ge> uint (groupAlive p) then
        (runCommand (cmdAlive p) (emit (Log Info ''Transitioning to alive state'' []) p))
          \<lparr>isTotalAlive := True\<rparr>
      else p)"

definition handleHostDead :: "Ping \<Rightarrow> Ping" where
  "handleHostDead p0 =
     (let p = p0\<lparr>totalAlive := totalAlive p0 - 1\<rparr> in
      if isTotalAlive p \<and> totalAlive p \<le> uint (groupDead p) then
        (runCommand (cmdDead p) (emit (Log Info ''Transitioning to dead state'' []) p))
          \<lparr>isTotalAlive := False\<rparr>
      else p)"

subsection \<open>One round: sending, collecting replies, the deadline\<close>

text \<open>
  \<^verbatim>\<open>Message.Marshal\<close> of golang.org/x/net/icmp (v0.34.0 in \<^verbatim>\<open>go.mod\<close>) is library code.
  It returns an error when the message's type is neither an IPv4 nor an IPv6 ICMP type and
  when the body's own \<^verbatim>\<open>Marshal\<close> returns one, which that of \<^verbatim>\<open>*icmp.Echo\<close> never does;
  otherwise it returns the encoding. The bytes are not computed here: \<open>wb\<close> stands for
  them.
\<close>

definition ICMPTypeEcho :: icmp_type where
  "ICMPTypeEcho = ICMPv4 8"

definition ICMPTypeEchoReply :: icmp_type where
  "ICMPTypeEchoReply = ICMPv4 0"

definition Marshal :: "Message \<Rightarrow> 8 word list \<Rightarrow> error + 8 word list" where
  "Marshal m wb =
     (case Type m of
        Other_type \<Rightarrow> Inl ''invalid protocol''
      | _ \<Rightarrow>
          (case Body m of
             Other_body (Inl e) \<Rightarrow> Inl e
           | _ \<Rightarrow> Inr wb))"

text \<open>The body of the loop of \<^verbatim>\<open>sendRequests\<close> for the entry with key \<open>k\<close>.\<close>

definition sendHost :: "(string \<Rightarrow> error option) \<Rightarrow> string \<Rightarrow> Ping \<Rightarrow> Ping" where
  "sendHost wr k p =
     (case map_of (send p) k of
        None \<Rightarrow> p
      | Some ri \<Rightarrow>
          (let p = p\<lparr>send := AList.update k (ri\<lparr>gotReply := False\<rparr>) (send p)\<rparr> in
           case wr k of
             Some e \<Rightarrow> emit (Log Error ''Failed to send ICMP message'' [Zap_Error e]) p
           | None \<Rightarrow> p))"

definition sendRequests :: "round_input \<Rightarrow> Ping \<Rightarrow> error + Ping" where
  "sendRequests r p =
     (let wm = \<lparr>Type = ICMPTypeEcho, Code = 0,
                 Body = Echo_body \<lparr>ID = uint (pid p), Seq = uint (seq p), Data = []\<rparr>\<rparr>
      in case Marshal wm (encoding r) of
           Inl e \<Rightarrow> Inl e
         | Inr wb \<Rightarrow> Inr (fold (sendHost (writeTo r)) (map fst (send p)) p))"

text \<open>The \<^verbatim>\<open>case i := <-recv\<close> branch of \<^verbatim>\<open>gatherResponses\<close>.\<close>

definition recvCase :: "icmpInfo \<Rightarrow> Ping \<Rightarrow> Ping" where
  "recvCase i p =
     (let s = icmpInfo.ip i in
      case map_of (send p) s of
        None \<Rightarrow> p
      | Some v0 \<Rightarrow>
          if uint16 (ID (echo i)) \<noteq> pid p \<or> uint16 (Seq (echo i)) \<noteq> seq p then p
          else
            (let v = (if \<not> isUp v0 then v0\<lparr>isUp := True, pingsInState := 1, gotReply := True\<rparr>
                      else v0\<lparr>pingsInState := pingsInState v0 + 1, gotReply := True\<rparr>);
                 p = p\<lparr>send := AList.update s v (send p)\<rparr>;
                 p = emit (Log Debug ''Successful ping''
                             [Zap_String ''ip'' s, Zap_Int ''count'' (pingsInState v)]) p
             in if pingsInState v = uint (aliveCount p) then
                  handleHostAlive (emit (Log Info ''Remote host is alive'' [Zap_String ''ip'' s]) p)
                else p))"

text \<open>The body of the loop of the \<^verbatim>\<open>case <-timer.C\<close> branch for the entry with key \<open>k\<close>.\<close>

definition timerHost :: "string \<Rightarrow> Ping \<Rightarrow> Ping" where
  "timerHost k p =
     (case map_of (send p) k of
        None \<Rightarrow> p
      | Some v0 \<Rightarrow>
          if \<not> gotReply v0 then
            (let v = (if isUp v0 then v0\<lparr>isUp := False, pingsInState := 1\<rparr>
                      else v0\<lparr>pingsInState := pingsInState v0 + 1\<rparr>);
                 p = p\<lparr>send := AList.update k v (send p)\<rparr>;
                 p = emit (Log Debug ''Ping timed out''
                             [Zap_String ''ip'' k, Zap_Int ''count'' (pingsInState v)]) p
             in if pingsInState v = uint (deadCount p) then
                  handleHostDead (emit (Log Info ''Remote host is dead'' [Zap_String ''ip'' k]) p)
                else p)
          else p)"

definition timerCase :: "Ping \<Rightarrow> Ping" where
  "timerCase p = fold timerHost (map fst (send p)) p"

text \<open>One pass of the loop in the goroutine of \<^verbatim>\<open>recv\<close>: its log records and what it does
  with the channel.\<close>

definition recvDatagram :: "datagram \<Rightarrow> effect list \<times> delivery" where
  "recvDatagram d =
     (case read_err d of
        Some e \<Rightarrow> ([Log Error ''Failed to receive ICMP message'' [Zap_Error e]], Dropped)
      | None \<Rightarrow>
          if read_n d = 0 then ([], Closed)
          else
            (case read_peer d of
               Other_addr \<Rightarrow>
                 ([Log Error ''Failed to extract UDP address'' [Zap_String ''peer'' (peer_String d)]],
                  Dropped)
             | UDPAddr a \<Rightarrow>
                 (case parsed d of
                    Inl e \<Rightarrow> ([Log Error ''Failed to parse ICMP message'' [Zap_Error e]], Dropped)
                  | Inr rm \<Rightarrow>
                      if Type rm \<noteq> ICMPTypeEchoReply then ([], Dropped)
                      else
                        (case Body rm of
                           Echo_body e \<Rightarrow> ([], Sent \<lparr>icmpInfo.ip = a, echo = e\<rparr>)
                         | _ \<Rightarrow>
                             ([Log Error ''Failed to extract body from ICMP message''
                                 [Zap_String ''peer'' (peer_String d)]],
                              Dropped)))))"

text \<open>
  The goroutine of \<^verbatim>\<open>recv\<close> over the datagrams it reads: its log records (they go to
  the logger concurrently with those of the rounds and are kept apart from \<open>trace\<close>) and
  what it sends over the channel, in order. It ends when it closes the channel; a closed
  channel then delivers the zero value, a reply from the nil address with identifier and
  sequence number 0, as often as the \<^verbatim>\<open>select\<close> loop takes one.
\<close>

fun recv :: "datagram list \<Rightarrow> effect list \<times> icmpInfo list" where
  "recv [] = ([], [])"
| "recv (d # ds) =
     (case recvDatagram d of
        (l, Closed) \<Rightarrow> (l, [])
      | (l, Dropped) \<Rightarrow> (l @ fst (recv ds), snd (recv ds))
      | (l, Sent i) \<Rightarrow> (l @ fst (recv ds), i # snd (recv ds)))"

text \<open>
  \<^verbatim>\<open>gatherResponses\<close>: the \<^verbatim>\<open>select\<close> loop takes the replies that arrive over the
  channel before the timer, one at a time, then the timer branch ends the round.
\<close>

definition gatherResponses :: "icmpInfo list \<Rightarrow> Ping \<Rightarrow> Ping" where
  "gatherResponses ch p = timerCase (fold recvCase ch p)"

text \<open>
  \<^verbatim>\<open>Run\<close> loops forever unless \<^verbatim>\<open>sendRequests\<close> fails. \<open>Run rs p\<close> follows it through the
  rounds \<open>rs\<close>: \<open>Inl e\<close> when \<^verbatim>\<open>Run\<close> has returned the error \<open>e\<close> to its caller, \<open>Inr p'\<close>
  when it is still looping, in state \<open>p'\<close>, after the last of them.
\<close>

fun Run :: "round_input list \<Rightarrow> Ping \<Rightarrow> error + Ping" where
  "Run [] p = Inr p"
| "Run (r # rs) p =
     (let p = p\<lparr>seq := seq p + 1\<rparr> in
      case sendRequests r p of
        Inl e \<Rightarrow> Inl e
      | Inr p \<Rightarrow> Run rs (gatherResponses (replies r) p))"

subsection \<open>Construction\<close>

text \<open>
  The body of the loop of \<^verbatim>\<open>readArguments\<close> over \<^verbatim>\<open>pflag.Args()\<close>: an argument that
  does not parse prints the usage text and is appended all the same, as the nil address,
  whose \<^verbatim>\<open>String()\<close> is \<^verbatim>\<open><nil>\<close>.
\<close>

definition addArg :: "(string \<Rightarrow> string option) \<Rightarrow> string \<Rightarrow> Ping \<Rightarrow> Ping" where
  "addArg parse arg p =
     (case parse arg of
        None \<Rightarrow> (emit Usage p)\<lparr>ips := ips p @ [''<nil>'']\<rparr>
      | Some a \<Rightarrow> p\<lparr>ips := ips p @ [a]\<rparr>)"

definition readArguments :: "(string \<Rightarrow> string option) \<Rightarrow> cmdline \<Rightarrow> Ping \<times> bool" where
  "readArguments parse cl =
     (let p = \<lparr>ips = [], waitTimeout = (case wait cl of None \<Rightarrow> second | Some d \<Rightarrow> d),
                pauseDuration = (case pause cl of None \<Rightarrow> 5 * second | Some d \<Rightarrow> d),
                aliveCount = (case alive_count cl of None \<Rightarrow> 3 | Some n \<Rightarrow> n),
                deadCount = (case dead_count cl of None \<Rightarrow> 3 | Some n \<Rightarrow> n),
                groupAlive = (case group_alive cl of None \<Rightarrow> 0 | Some n \<Rightarrow> n),
                groupDead = (case group_dead cl of None \<Rightarrow> 0 | Some n \<Rightarrow> n),
                cmdAlive = (case alive_cmd cl of None \<Rightarrow> [] | Some c \<Rightarrow> c),
                cmdDead = (case dead_cmd cl of None \<Rightarrow> [] | Some c \<Rightarrow> c),
                send = [], pid = 0, seq = 0, totalAlive = 0, isTotalAlive = False,
                trace = []\<rparr>;
          p = fold (addArg parse) (args cl) p;
          p = (if length (ips p) = 0 then emit Usage p else p)
      in (p, case verbose cl of None \<Rightarrow> False | Some b \<Rightarrow> b))"

definition newInfo :: "string \<Rightarrow> remoteInfo" where
  "newInfo a = \<lparr>remoteInfo.ip = a, isUp = False, pingsInState = 0, gotReply = False\<rparr>"

text \<open>The body of the loop that fills \<^verbatim>\<open>p.send\<close>: \<^verbatim>\<open>p.send[ip.String()] = &remoteInfo{...}\<close>.\<close>

definition addHost :: "string \<Rightarrow> (string \<times> remoteInfo) list \<Rightarrow> (string \<times> remoteInfo) list" where
  "addHost a m = AList.update a (newInfo a) m"

definition NewPingFromCommandLine :: "env \<Rightarrow> cmdline \<Rightarrow> error + Ping" where
  "NewPingFromCommandLine ev cl =
     (let (p, verbose) = readArguments (parseIP ev) cl in
      case listenPacket ev of
        Some e \<Rightarrow> Inl e
      | None \<Rightarrow>
          (let p = p\<lparr>pid := (if goos_linux ev then uint16 (localPort ev) else uint16 (getpid ev))\<rparr>;
               p = p\<lparr>send := fold addHost (ips p) []\<rparr>;
               p = (if groupAlive p = 0 then p\<lparr>groupAlive := uint8_of_len (length (ips p))\<rparr> else p);
               p = emit (Log Info ''Starting the pinger''
                           [Zap_Uint8 ''active on'' (groupAlive p), Zap_Uint8 ''dead on'' (groupDead p)]) p
           in Inr p))"

text \<open>
  \<^verbatim>\<open>main\<close> of \<^verbatim>\<open>main.go\<close>: construct, then run; either error makes it panic. \<open>Inl e\<close> is
  the error that reached \<^verbatim>\<open>main\<close>.
\<close>

definition main :: "env \<Rightarrow> cmdline \<Rightarrow> round_input list \<Rightarrow> error + Ping" where
  "main ev cl rs =
     (case NewPingFromCommandLine ev cl of
        Inl e \<Rightarrow> Inl e
      | Inr p \<Rightarrow> Run rs p)"

subsection \<open>Vocabulary of the specification\<close>

text \<open>
  The specification speaks of events. \<open>HostBecameUp\<close> for the host \<open>k\<close> is the call of
  \<^verbatim>\<open>handleHostAlive\<close> in the reply branch, which the code announces with the record
  \<open>hostUp k\<close> immediately before the call; \<open>HostBecameDown\<close> is the call of
  \<^verbatim>\<open>handleHostDead\<close> in the timer branch, announced with \<open>hostDown k\<close>. The group's
  actions \<open>onAlive\<close> and \<open>onDead\<close> are the commands run.
\<close>

definition hostUp :: "string \<Rightarrow> effect" where
  "hostUp k = Log Info ''Remote host is alive'' [Zap_String ''ip'' k]"

definition hostDown :: "string \<Rightarrow> effect" where
  "hostDown k = Log Info ''Remote host is dead'' [Zap_String ''ip'' k]"

definition ups :: "string \<Rightarrow> Ping \<Rightarrow> nat" where
  "ups k p = count_list (trace p) (hostUp k)"

definition downs :: "string \<Rightarrow> Ping \<Rightarrow> nat" where
  "downs k p = count_list (trace p) (hostDown k)"

definition execs :: "string \<Rightarrow> Ping \<Rightarrow> nat" where
  "execs c p = count_list (trace p) (Exec c)"

text \<open>The hosts the engine monitors are the entries of \<^verbatim>\<open>p.send\<close>.\<close>

definition hostCount :: "Ping \<Rightarrow> nat" where
  "hostCount p = length (send p)"

text \<open>The key under which the positional argument \<open>a\<close> is monitored.\<close>

definition keyOf :: "env \<Rightarrow> string \<Rightarrow> string" where
  "keyOf ev a = (case parseIP ev a of None \<Rightarrow> ''<nil>'' | Some s \<Rightarrow> s)"

text \<open>
  A round given by its outcomes: the hosts \<open>ks\<close> answer, each with one echo reply that
  carries the engine's identifier and the round's sequence number (the one \<^verbatim>\<open>Run\<close> sets
  with \<^verbatim>\<open>p.seq++\<close>); every other host times out. Encoding and writing succeed.
\<close>

definition echoReply :: "Ping \<Rightarrow> string \<Rightarrow> icmpInfo" where
  "echoReply p k =
     \<lparr>icmpInfo.ip = k, echo = \<lparr>ID = uint (pid p), Seq = uint (seq p + 1), Data = []\<rparr>\<rparr>"

definition writes_ok :: "string \<Rightarrow> error option" where
  "writes_ok a = None"

definition outcome :: "string list \<Rightarrow> Ping \<Rightarrow> round_input" where
  "outcome ks p = \<lparr>encoding = [], writeTo = writes_ok, replies = map (echoReply p) ks\<rparr>"

fun play :: "string list list \<Rightarrow> Ping \<Rightarrow> error + Ping" where
  "play [] p = Inr p"
| "play (ks # rest) p =
     (case Run [outcome ks p] p of
        Inl e \<Rightarrow> Inl e
      | Inr p' \<Rightarrow> play rest p')"

text \<open>The engine constructed from a command line and driven through rounds of outcomes.\<close>

definition session :: "env \<Rightarrow> cmdline \<Rightarrow> string list list \<Rightarrow> error + Ping" where
  "session ev cl rounds =
     (case NewPingFromCommandLine ev cl of
        Inl e \<Rightarrow> Inl e
      | Inr p \<Rightarrow> play rounds p)"

text \<open>
  Scenario A of the specification: one monitored host, given as \<open>a\<close>, with the host alive
  threshold 3 and a socket that opens; every other setting is as \<open>ev\<close> and \<open>cl\<close> have it.
\<close>

definition scenarioA :: "env \<Rightarrow> cmdline \<Rightarrow> string \<Rightarrow> string list list \<Rightarrow> error + Ping" where
  "scenarioA ev cl a rounds =
     session (ev\<lparr>listenPacket := None\<rparr>) (cl\<lparr>alive_count := Some 3, args := [a]\<rparr>) rounds"

text \<open>
  In each of the rounds, the host \<open>k\<close> answers an engine with the identifier \<open>pd\<close> whose
  sequence number was \<open>s\<close> before the first of them.
\<close>

fun answered :: "string \<Rightarrow> uint16 \<Rightarrow> uint16 \<Rightarrow> round_input list \<Rightarrow> bool" where
  "answered k pd s [] = True"
| "answered k pd s (r # rs) =
     (list_ex (\<lambda>i. icmpInfo.ip i = k \<and> uint16 (ID (echo i)) = pd \<and> uint16 (Seq (echo i)) = s + 1)
        (replies r)
      \<and> answered k pd (s + 1) rs)"

text \<open>
  A datagram the goroutine of \<^verbatim>\<open>recv\<close> cannot turn into a reply: the read failed, or
  something was read and the peer is not a UDP address, or the message does not parse, or
  it is not an echo reply, or its body is not an echo.
\<close>

definition malformed :: "datagram \<Rightarrow> bool" where
  "malformed d \<longleftrightarrow>
     read_err d \<noteq> None
     \<or> (read_n d \<noteq> 0
        \<and> (read_peer d = Other_addr
           \<or> (case parsed d of
                 Inl e \<Rightarrow> True
               | Inr rm \<Rightarrow>
                   Type rm \<noteq> ICMPTypeEchoReply
                   \<or> (case Body rm of Echo_body e \<Rightarrow> False | _ \<Rightarrow> True))))"

text \<open>The round with every write succeeding, and the state without its effects.\<close>

definition writes_succeed :: "round_input \<Rightarrow> round_input" where
  "writes_succeed r = r\<lparr>writeTo := writes_ok\<rparr>"

definition unlogged :: "Ping \<Rightarrow> Ping" where
  "unlogged p = p\<lparr>trace := []\<rparr>"

text \<open>
  The number of outcomes the rounds feed to \<open>h\<close> hosts: every reply, and one deadline per
  host and round.
\<close>

fun outcomes :: "nat \<Rightarrow> round_input list \<Rightarrow> nat" where
  "outcomes h [] = 0"
| "outcomes h (r # rs) = length (replies r) + h + outcomes h rs"

subsection \<open>Concrete inputs\<close>

definition env0 :: env where
  "env0 = \<lparr>parseIP = Some, listenPacket = None, goos_linux = True, localPort = 4242, getpid = 77\<rparr>"

text \<open>The command line \<^verbatim>\<open>pinger -a up.sh -d down.sh <args>\<close>: every other flag absent.\<close>

definition cl0 :: "string list \<Rightarrow> cmdline" where
  "cl0 as =
     \<lparr>verbose = None, alive_cmd = Some ''up.sh'', dead_cmd = Some ''down.sh'', wait = None,
      pause = None, alive_count = None, dead_count = None, group_alive = None,
      group_dead = None, args = as\<rparr>"

definition h1 :: string where
  "h1 = ''10.0.0.1''"

text \<open>The engine as constructed from \<open>cl0 [h1]\<close> in \<open>env0\<close> (lemma \<open>booted_is_constructed\<close>).\<close>

definition booted :: Ping where
  "booted =
     \<lparr>ips = [h1], waitTimeout = second, pauseDuration = 5 * second, aliveCount = 3,
      deadCount = 3, groupAlive = 1, groupDead = 0, cmdAlive = ''up.sh'', cmdDead = ''down.sh'',
      send = [(h1, newInfo h1)], pid = 4242, seq = 0, totalAlive = 0, isTotalAlive = False,
      trace = [Log Info ''Starting the pinger''
                 [Zap_Uint8 ''active on'' 1, Zap_Uint8 ''dead on'' 0]]\<rparr>"

text \<open>Two replies from \<open>h1\<close>: one of another pinger, one with the sequence number 0.\<close>

definition foreign :: icmpInfo where
  "foreign = \<lparr>icmpInfo.ip = h1, echo = \<lparr>ID = 1, Seq = 1, Data = []\<rparr>\<rparr>"

definition stale :: icmpInfo where
  "stale = \<lparr>icmpInfo.ip = h1, echo = \<lparr>ID = 4242, Seq = 0, Data = []\<rparr>\<rparr>"


text \<open>The same command line with every threshold set to 0.\<close>

definition cl_all_zero :: cmdline where
  "cl_all_zero = (cl0 [h1])\<lparr>alive_count := Some 0, dead_count := Some 0, group_alive := Some 0,
     group_dead := Some 0\<rparr>"

text \<open>
  Three datagrams: one whose read failed, one that does not parse, and an echo reply of
  \<open>h1\<close> to an engine with identifier 4242, sequence number 1.
\<close>

definition unread :: datagram where
  "unread = \<lparr>read_err = Some ''read failed'', read_n = 0, read_peer = Other_addr,
              peer_String = [], parsed = Inl []\<rparr>"

definition garbled :: datagram where
  "garbled = \<lparr>read_err = None, read_n = 5, read_peer = UDPAddr h1,
               peer_String = ''10.0.0.1:0'', parsed = Inl ''message too short''\<rparr>"

definition answer :: datagram where
  "answer = \<lparr>read_err = None, read_n = 8, read_peer = UDPAddr h1, peer_String = ''10.0.0.1:0'',
              parsed = Inr \<lparr>Type = ICMPTypeEchoReply, Code = 0,
                           Body = Echo_body \<lparr>ID = 4242, Seq = 1, Data = []\<rparr>\<rparr>\<rparr>"

text \<open>A write that fails for every address.\<close>

definition writes_fail :: "string \<Rightarrow> error option" where
  "writes_fail a = Some ''sendto: network is unreachable''"

text \<open>What a scenario observes: alive and dead announcements of a host, the group state.\<close>

definition tally :: "string \<Rightarrow> Ping \<Rightarrow> nat \<times> nat \<times> int \<times> bool" where
  "tally k p = (ups k p, downs k p, totalAlive p, isTotalAlive p)"

text \<open>256 distinct addresses, \<^verbatim>\<open>10.a.b.c\<close> with \<open>a < 4\<close> and \<open>b, c < 8\<close>.\<close>

definition addrs256 :: "string list" where
  "addrs256 =
     concat (map (\<lambda>a. concat (map (\<lambda>b. map (\<lambda>c. ''10.'' @ [a] @ ''.'' @ [b] @ ''.'' @ [c])
       ''01234567'') ''01234567'')) ''0123'')"

subsection \<open>Invariants used in the proofs\<close>

text \<open>Every streak counter is at least \<open>n\<close>.\<close>

definition streaks_from :: "int \<Rightarrow> (string \<times> remoteInfo) list \<Rightarrow> bool" where
  "streaks_from n al = list_all (\<lambda>kv. n \<le> pingsInState (snd kv)) al"

text \<open>Every streak counter is at most \<open>n\<close>.\<close>

definition streaks_upto :: "int \<Rightarrow> (string \<times> remoteInfo) list \<Rightarrow> bool" where
  "streaks_upto n al = list_all (\<lambda>kv. pingsInState (snd kv) \<le> n) al"

text \<open>The streak counters are between 0 and \<open>n\<close>, the group counter between \<open>-n\<close> and \<open>n\<close>.\<close>

definition counters_within :: "nat \<Rightarrow> Ping \<Rightarrow> bool" where
  "counters_within n p \<longleftrightarrow>
     streaks_from 0 (send p) \<and> streaks_upto (int n) (send p)
     \<and> - int n \<le> totalAlive p \<and> totalAlive p \<le> int n"

text \<open>
  The host \<open>k\<close> is up with a streak that has reached the alive threshold: it was announced
  alive and has replied in every round since. With \<open>got\<close>, it has replied in this round.
\<close>

definition settled :: "string \<Rightarrow> bool \<Rightarrow> Ping \<Rightarrow> bool" where
  "settled k got p \<longleftrightarrow>
     (\<exists>v. map_of (send p) k = Some v \<and> isUp v \<and> uint (aliveCount p) \<le> pingsInState v
          \<and> (got \<longrightarrow> gotReply v))"

text \<open>
  The engine monitors the one host \<open>k\<close> with alive threshold 3; the host's flag is \<open>up\<close>,
  its streak is \<open>n\<close>, and it was announced alive \<open>u\<close> times.
\<close>

definition lone :: "string \<Rightarrow> bool \<Rightarrow> int \<Rightarrow> nat \<Rightarrow> Ping \<Rightarrow> bool" where
  "lone k up n u p \<longleftrightarrow>
     aliveCount p = 3 \<and> ups k p = u
     \<and> (\<exists>v. send p = [(k, v)] \<and> isUp v = up \<and> pingsInState v = n)"



section \<open>Frame lemmas\<close>

text \<open>Encoding the request of \<^verbatim>\<open>sendRequests\<close> does not fail.\<close>

lemma sendRequests_Inr:
  "sendRequests r p = Inr (fold (sendHost (writeTo r)) (map fst (send p)) p)"
  by (simp add: sendRequests_def Marshal_def ICMPTypeEcho_def Let_def)

lemma emit_simps:
  "send (emit e p) = send p" "pid (emit e p) = pid p" "seq (emit e p) = seq p"
  "totalAlive (emit e p) = totalAlive p" "isTotalAlive (emit e p) = isTotalAlive p"
  "aliveCount (emit e p) = aliveCount p" "deadCount (emit e p) = deadCount p"
  "groupAlive (emit e p) = groupAlive p" "groupDead (emit e p) = groupDead p"
  "cmdAlive (emit e p) = cmdAlive p" "cmdDead (emit e p) = cmdDead p"
  "trace (emit e p) = trace p @ [e]"
  by (simp_all add: emit_def)

lemma handleHostAlive_frame:
  "send (handleHostAlive p) = send p" "pid (handleHostAlive p) = pid p"
  "seq (handleHostAlive p) = seq p" "aliveCount (handleHostAlive p) = aliveCount p"
  "deadCount (handleHostAlive p) = deadCount p"
  by (simp_all add: handleHostAlive_def runCommand_def emit_def Let_def)

lemma handleHostDead_frame:
  "send (handleHostDead p) = send p" "pid (handleHostDead p) = pid p"
  "seq (handleHostDead p) = seq p" "aliveCount (handleHostDead p) = aliveCount p"
  "deadCount (handleHostDead p) = deadCount p"
  by (simp_all add: handleHostDead_def runCommand_def emit_def Let_def)

lemma keys_update_present:
  "map_of al k = Some v \<Longrightarrow> map fst (AList.update k w al) = map fst al"
  by (induction al) (auto split: if_splits)

lemma recvCase_frame:
  "pid (recvCase i p) = pid p \<and> seq (recvCase i p) = seq p \<and>
   map fst (send (recvCase i p)) = map fst (send p)"
  by (simp add: recvCase_def Let_def handleHostAlive_frame emit_simps keys_update_present
      split: option.splits)

lemma fold_recvCase_frame:
  "pid (fold recvCase xs p) = pid p \<and> seq (fold recvCase xs p) = seq p \<and>
   map fst (send (fold recvCase xs p)) = map fst (send p)"
  by (induction xs arbitrary: p) (simp_all add: recvCase_frame)

lemma sendHost_frame:
  "pid (sendHost w k p) = pid p \<and> seq (sendHost w k p) = seq p \<and>
   map fst (send (sendHost w k p)) = map fst (send p)"
  by (simp add: sendHost_def Let_def emit_simps keys_update_present split: option.splits)

lemma fold_sendHost_frame:
  "pid (fold (sendHost w) ks p) = pid p \<and> seq (fold (sendHost w) ks p) = seq p \<and>
   map fst (send (fold (sendHost w) ks p)) = map fst (send p)"
  by (induction ks arbitrary: p) (simp_all add: sendHost_frame)

lemma recvCase_drop:
  assumes "icmpInfo.ip i \<notin> fst ` set (send p) \<or> uint16 (ID (echo i)) \<noteq> pid p
           \<or> uint16 (Seq (echo i)) \<noteq> seq p"
  shows "recvCase i p = p"
proof -
  from assms have "map_of (send p) (icmpInfo.ip i) = None \<or> uint16 (ID (echo i)) \<noteq> pid p
           \<or> uint16 (Seq (echo i)) \<noteq> seq p"
    by (simp add: map_of_eq_None_iff)
  then show ?thesis
    by (auto simp add: recvCase_def Let_def split: option.splits)
qed

section \<open>Construction\<close>

lemmas engine_defs =
  NewPingFromCommandLine_def readArguments_def addArg_def addHost_def emit_def newInfo_def
  uint8_of_len_def uint16_def outcome_def echoReply_def writes_ok_def sendRequests_def
  Marshal_def ICMPTypeEcho_def
  sendHost_def gatherResponses_def timerCase_def timerHost_def recvCase_def
  handleHostDead_def handleHostAlive_def runCommand_def Let_def

lemmas scenario_defs =
  session_def env0_def cl0_def h1_def ups_def downs_def execs_def hostUp_def hostDown_def
  hostCount_def

lemma fold_invariant:
  assumes "P p" and "\<And>x q. P q \<Longrightarrow> P (f x q)"
  shows "P (fold f xs p)"
  using assms(1) by (induction xs arbitrary: p) (simp_all add: assms(2))

lemma addArg_frame:
  "aliveCount (addArg f a p) = aliveCount p" "deadCount (addArg f a p) = deadCount p"
  "groupAlive (addArg f a p) = groupAlive p" "groupDead (addArg f a p) = groupDead p"
  "totalAlive (addArg f a p) = totalAlive p" "isTotalAlive (addArg f a p) = isTotalAlive p"
  "send (addArg f a p) = send p" "pid (addArg f a p) = pid p" "seq (addArg f a p) = seq p"
  by (simp_all add: addArg_def emit_def split: option.splits)

lemma addArg_ips: "ips (addArg f a p) = ips p @ [case f a of None \<Rightarrow> ''<nil>'' | Some s \<Rightarrow> s]"
  by (simp add: addArg_def emit_def split: option.splits)

lemma addArg_trace: "set (trace p) \<subseteq> {Usage} \<Longrightarrow> set (trace (addArg f a p)) \<subseteq> {Usage}"
  by (auto simp add: addArg_def emit_def split: option.splits)

lemma fold_addArg_ips:
  "ips (fold (addArg f) as p) = ips p @ map (\<lambda>a. case f a of None \<Rightarrow> ''<nil>'' | Some s \<Rightarrow> s) as"
  by (induction as arbitrary: p) (simp_all add: addArg_ips)

lemma fold_addArg_frame:
  "aliveCount (fold (addArg f) as p) = aliveCount p"
  "deadCount (fold (addArg f) as p) = deadCount p"
  "groupAlive (fold (addArg f) as p) = groupAlive p"
  "groupDead (fold (addArg f) as p) = groupDead p"
  "totalAlive (fold (addArg f) as p) = totalAlive p"
  "isTotalAlive (fold (addArg f) as p) = isTotalAlive p"
  "send (fold (addArg f) as p) = send p"
  "pid (fold (addArg f) as p) = pid p"
  "seq (fold (addArg f) as p) = seq p"
  by (rule fold_invariant, simp, simp add: addArg_frame)+

lemma fold_addArg_trace:
  "set (trace p) \<subseteq> {Usage} \<Longrightarrow> set (trace (fold (addArg f) as p)) \<subseteq> {Usage}"
  by (rule fold_invariant) (simp_all add: addArg_trace)

lemma readArguments_fields:
  "aliveCount (fst (readArguments f cl)) = (case alive_count cl of None \<Rightarrow> 3 | Some n \<Rightarrow> n)"
  "deadCount (fst (readArguments f cl)) = (case dead_count cl of None \<Rightarrow> 3 | Some n \<Rightarrow> n)"
  "groupAlive (fst (readArguments f cl)) = (case group_alive cl of None \<Rightarrow> 0 | Some n \<Rightarrow> n)"
  "groupDead (fst (readArguments f cl)) = (case group_dead cl of None \<Rightarrow> 0 | Some n \<Rightarrow> n)"
  "totalAlive (fst (readArguments f cl)) = 0"
  "isTotalAlive (fst (readArguments f cl)) = False"
  "seq (fst (readArguments f cl)) = 0"
  by (simp_all add: readArguments_def Let_def emit_def fold_addArg_frame)

lemma readArguments_ips:
  "ips (fst (readArguments f cl)) = map (\<lambda>a. case f a of None \<Rightarrow> ''<nil>'' | Some s \<Rightarrow> s) (args cl)"
  by (simp add: readArguments_def Let_def emit_def fold_addArg_ips)

lemma readArguments_trace: "set (trace (fst (readArguments f cl))) \<subseteq> {Usage}"
proof -
  have "set (trace (fold (addArg f) (args cl) q)) \<subseteq> {Usage}" if "trace q = []" for q
    using that by (simp add: fold_addArg_trace)
  then show ?thesis
    by (auto simp add: readArguments_def Let_def emit_def)
qed

text \<open>The state NewPingFromCommandLine returns when the socket opens.\<close>

lemma NewPing_cases:
  "NewPingFromCommandLine ev cl = Inl e \<longleftrightarrow> listenPacket ev = Some e"
  "(\<exists>p. NewPingFromCommandLine ev cl = Inr p) \<longleftrightarrow> listenPacket ev = None"
  by (auto simp add: NewPingFromCommandLine_def Let_def split: prod.splits option.splits)

lemma NewPing_Inr:
  assumes "NewPingFromCommandLine ev cl = Inr p"
  shows "listenPacket ev = None"
    and "p = (let p = fst (readArguments (parseIP ev) cl);
               p = p\<lparr>pid := (if goos_linux ev then uint16 (localPort ev) else uint16 (getpid ev))\<rparr>;
               p = p\<lparr>send := fold addHost (ips p) []\<rparr>;
               p = (if groupAlive p = 0 then p\<lparr>groupAlive := uint8_of_len (length (ips p))\<rparr> else p)
             in emit (Log Info ''Starting the pinger''
                  [Zap_Uint8 ''active on'' (groupAlive p), Zap_Uint8 ''dead on'' (groupDead p)]) p)"
proof -
  show n: "listenPacket ev = None"
    using assms by (cases "listenPacket ev") (simp_all add: NewPingFromCommandLine_def Let_def split: prod.splits)
  show "p = (let p = fst (readArguments (parseIP ev) cl);
               p = p\<lparr>pid := (if goos_linux ev then uint16 (localPort ev) else uint16 (getpid ev))\<rparr>;
               p = p\<lparr>send := fold addHost (ips p) []\<rparr>;
               p = (if groupAlive p = 0 then p\<lparr>groupAlive := uint8_of_len (length (ips p))\<rparr> else p)
             in emit (Log Info ''Starting the pinger''
                  [Zap_Uint8 ''active on'' (groupAlive p), Zap_Uint8 ''dead on'' (groupDead p)]) p)"
  proof -
    have "NewPingFromCommandLine ev cl = Inr (let p = fst (readArguments (parseIP ev) cl);
               p = p\<lparr>pid := (if goos_linux ev then uint16 (localPort ev) else uint16 (getpid ev))\<rparr>;
               p = p\<lparr>send := fold addHost (ips p) []\<rparr>;
               p = (if groupAlive p = 0 then p\<lparr>groupAlive := uint8_of_len (length (ips p))\<rparr> else p)
             in emit (Log Info ''Starting the pinger''
                  [Zap_Uint8 ''active on'' (groupAlive p), Zap_Uint8 ''dead on'' (groupDead p)]) p)"
      unfolding NewPingFromCommandLine_def case_prod_beta n by (simp only: Let_def option.case)
    with assms show ?thesis by (simp only: sum.inject)
  qed
qed

lemma NewPing_fields:
  assumes "NewPingFromCommandLine ev cl = Inr p"
  shows "aliveCount p = (case alive_count cl of None \<Rightarrow> 3 | Some n \<Rightarrow> n)"
    and "deadCount p = (case dead_count cl of None \<Rightarrow> 3 | Some n \<Rightarrow> n)"
    and "groupDead p = (case group_dead cl of None \<Rightarrow> 0 | Some n \<Rightarrow> n)"
    and "totalAlive p = 0" and "\<not> isTotalAlive p" and "seq p = 0"
    and "ips p = map (\<lambda>a. case parseIP ev a of None \<Rightarrow> ''<nil>'' | Some s \<Rightarrow> s) (args cl)"
    and "send p = fold addHost (ips p) []"
    and "pid p = (if goos_linux ev then uint16 (localPort ev) else uint16 (getpid ev))"
  unfolding NewPing_Inr(2) [OF assms]
  by (simp_all add: Let_def emit_def readArguments_fields readArguments_ips)

lemma NewPing_groupAlive:
  assumes "NewPingFromCommandLine ev cl = Inr p"
  shows "groupAlive p = (if group_alive cl = None \<or> group_alive cl = Some 0
                         then uint8_of_len (length (args cl)) else the (group_alive cl))"
  unfolding NewPing_Inr(2) [OF assms]
  by (cases "group_alive cl") (simp_all add: Let_def emit_def readArguments_fields readArguments_ips)

lemma NewPing_trace:
  assumes "NewPingFromCommandLine ev cl = Inr p"
  shows "set (trace p) \<subseteq> {Usage, Log Info ''Starting the pinger''
           [Zap_Uint8 ''active on'' (groupAlive p), Zap_Uint8 ''dead on'' (groupDead p)]}"
  unfolding NewPing_Inr(2) [OF assms]
  using readArguments_trace [of "parseIP ev" cl]
  by (auto simp add: Let_def emit_def)

section \<open>Invariants of a run\<close>


lemma streaks_from_update:
  "streaks_from n al \<Longrightarrow> n \<le> pingsInState v \<Longrightarrow> streaks_from n (AList.update k v al)"
  by (induction al) (auto simp add: streaks_from_def)

lemma streaks_from_lookup:
  "streaks_from n al \<Longrightarrow> map_of al k = Some v \<Longrightarrow> n \<le> pingsInState v"
  by (induction al) (auto simp add: streaks_from_def split: if_splits)

lemma handleHostDead_ups: "ups k (handleHostDead p) = ups k p"
  by (simp add: handleHostDead_def runCommand_def emit_def Let_def ups_def hostUp_def)


lemma handleHostDead_down:
  "totalAlive (handleHostDead p) = totalAlive p - 1"
  "isTotalAlive (handleHostDead p) \<Longrightarrow> isTotalAlive p"
  by (simp_all add: handleHostDead_def runCommand_def emit_def Let_def split: if_splits)

lemma handleHostAlive_up:
  "totalAlive (handleHostAlive p) = totalAlive p + 1"
  by (simp_all add: handleHostAlive_def runCommand_def emit_def Let_def split: if_splits)

text \<open>The shapes a step can take.\<close>

lemma recvCase_cases:
  obtains (drop) "recvCase i p = p"
  | (count) v0 v where "map_of (send p) (icmpInfo.ip i) = Some v0"
      and "pingsInState v = (if isUp v0 then pingsInState v0 + 1 else 1)"
      and "pingsInState v \<noteq> uint (aliveCount p)"
      and "recvCase i p =
            emit (Log Debug ''Successful ping''
                    [Zap_String ''ip'' (icmpInfo.ip i), Zap_Int ''count'' (pingsInState v)])
              (p\<lparr>send := AList.update (icmpInfo.ip i) v (send p)\<rparr>)"
      and "isUp v" and "gotReply v"
  | (alive) v0 v where "map_of (send p) (icmpInfo.ip i) = Some v0"
      and "pingsInState v = (if isUp v0 then pingsInState v0 + 1 else 1)"
      and "pingsInState v = uint (aliveCount p)"
      and "recvCase i p =
            handleHostAlive (emit (hostUp (icmpInfo.ip i))
              (emit (Log Debug ''Successful ping''
                      [Zap_String ''ip'' (icmpInfo.ip i), Zap_Int ''count'' (pingsInState v)])
                (p\<lparr>send := AList.update (icmpInfo.ip i) v (send p)\<rparr>)))"
      and "isUp v" and "gotReply v"
proof (cases "map_of (send p) (icmpInfo.ip i)")
  case None
  then have "recvCase i p = p" by (simp add: recvCase_def)
  then show ?thesis by (rule drop)
next
  case (Some v0)
  show ?thesis
  proof (cases "uint16 (ID (echo i)) \<noteq> pid p \<or> uint16 (Seq (echo i)) \<noteq> seq p")
    case True
    then have "recvCase i p = p" using Some by (auto simp add: recvCase_def)
    then show ?thesis by (rule drop)
  next
    case False
    define v where "v = (if \<not> isUp v0 then v0\<lparr>isUp := True, pingsInState := 1, gotReply := True\<rparr>
                      else v0\<lparr>pingsInState := pingsInState v0 + 1, gotReply := True\<rparr>)"
    have s: "pingsInState v = (if isUp v0 then pingsInState v0 + 1 else 1)"
      by (simp add: v_def)
    have g: "isUp v" "gotReply v"
      by (simp_all add: v_def)
    show ?thesis
    proof (cases "pingsInState v = uint (aliveCount p)")
      case True
      have "recvCase i p =
            handleHostAlive (emit (hostUp (icmpInfo.ip i))
              (emit (Log Debug ''Successful ping''
                      [Zap_String ''ip'' (icmpInfo.ip i), Zap_Int ''count'' (pingsInState v)])
                (p\<lparr>send := AList.update (icmpInfo.ip i) v (send p)\<rparr>)))"
        using Some False True unfolding v_def
        by (simp add: recvCase_def Let_def hostUp_def emit_simps)
      with Some s True show ?thesis using g by (rule alive)
    next
      case ne: False
      have "recvCase i p =
            emit (Log Debug ''Successful ping''
                    [Zap_String ''ip'' (icmpInfo.ip i), Zap_Int ''count'' (pingsInState v)])
              (p\<lparr>send := AList.update (icmpInfo.ip i) v (send p)\<rparr>)"
        using Some False ne unfolding v_def
        by (simp add: recvCase_def Let_def hostUp_def emit_simps)
      with Some s ne show ?thesis using g by (rule count)
    qed
  qed
qed

lemma timerHost_cases:
  obtains (skip) "timerHost k p = p"
  | (count) v0 v where "map_of (send p) k = Some v0"
      and "pingsInState v = (if isUp v0 then 1 else pingsInState v0 + 1)"
      and "pingsInState v \<noteq> uint (deadCount p)"
      and "timerHost k p =
            emit (Log Debug ''Ping timed out''
                    [Zap_String ''ip'' k, Zap_Int ''count'' (pingsInState v)])
              (p\<lparr>send := AList.update k v (send p)\<rparr>)"
      and "\<not> gotReply v0"
  | (dead) v0 v where "map_of (send p) k = Some v0"
      and "pingsInState v = (if isUp v0 then 1 else pingsInState v0 + 1)"
      and "pingsInState v = uint (deadCount p)"
      and "timerHost k p =
            handleHostDead (emit (hostDown k)
              (emit (Log Debug ''Ping timed out''
                      [Zap_String ''ip'' k, Zap_Int ''count'' (pingsInState v)])
                (p\<lparr>send := AList.update k v (send p)\<rparr>)))"
      and "\<not> gotReply v0"
proof (cases "map_of (send p) k")
  case None
  then have "timerHost k p = p" by (simp add: timerHost_def)
  then show ?thesis by (rule skip)
next
  case (Some v0)
  show ?thesis
  proof (cases "gotReply v0")
    case True
    then have "timerHost k p = p" using Some by (simp add: timerHost_def)
    then show ?thesis by (rule skip)
  next
    case False
    define v where "v = (if isUp v0 then v0\<lparr>isUp := False, pingsInState := 1\<rparr>
                      else v0\<lparr>pingsInState := pingsInState v0 + 1\<rparr>)"
    have s: "pingsInState v = (if isUp v0 then 1 else pingsInState v0 + 1)"
      by (simp add: v_def)
    show ?thesis
    proof (cases "pingsInState v = uint (deadCount p)")
      case True
      have "timerHost k p =
            handleHostDead (emit (hostDown k)
              (emit (Log Debug ''Ping timed out''
                      [Zap_String ''ip'' k, Zap_Int ''count'' (pingsInState v)])
                (p\<lparr>send := AList.update k v (send p)\<rparr>)))"
        using Some False True unfolding v_def
        by (simp add: timerHost_def Let_def hostDown_def emit_simps)
      with Some s True show ?thesis using False by (rule dead)
    next
      case ne: False
      have "timerHost k p =
            emit (Log Debug ''Ping timed out''
                    [Zap_String ''ip'' k, Zap_Int ''count'' (pingsInState v)])
              (p\<lparr>send := AList.update k v (send p)\<rparr>)"
        using Some False ne unfolding v_def
        by (simp add: timerHost_def Let_def hostDown_def emit_simps)
      with Some s ne show ?thesis using False by (rule count)
    qed
  qed
qed

lemma sendHost_cases:
  obtains (skip) "sendHost w k p = p"
  | (sent) v0 v es where "map_of (send p) k = Some v0" and "pingsInState v = pingsInState v0"
      and "set es \<subseteq> range (\<lambda>e. Log Error ''Failed to send ICMP message'' [Zap_Error e])"
      and "sendHost w k p = p\<lparr>send := AList.update k v (send p), trace := trace p @ es\<rparr>"
proof (cases "map_of (send p) k")
  case None
  then have "sendHost w k p = p" by (simp add: sendHost_def)
  then show ?thesis by (rule skip)
next
  case (Some v0)
  show ?thesis
  proof (cases "w k")
    case None
    have "sendHost w k p = p\<lparr>send := AList.update k (v0\<lparr>gotReply := False\<rparr>) (send p), trace := trace p @ []\<rparr>"
      using Some None by (simp add: sendHost_def Let_def)
    then show ?thesis using Some by (intro sent [of v0 "v0\<lparr>gotReply := False\<rparr>" "[]"]) simp_all
  next
    case (Some e)
    have "sendHost w k p = p\<lparr>send := AList.update k (v0\<lparr>gotReply := False\<rparr>) (send p),
            trace := trace p @ [Log Error ''Failed to send ICMP message'' [Zap_Error e]]\<rparr>"
      using \<open>map_of (send p) k = Some v0\<close> Some by (simp add: sendHost_def Let_def emit_def)
    then show ?thesis using \<open>map_of (send p) k = Some v0\<close>
      by (intro sent [of v0 "v0\<lparr>gotReply := False\<rparr>" "[Log Error ''Failed to send ICMP message'' [Zap_Error e]]"]) simp_all
  qed
qed

lemma ups_emit: "ups k (emit e p) = ups k p + (if e = hostUp k then 1 else 0)"
  by (simp add: ups_def emit_def)


lemma ups_send_update: "ups k (p\<lparr>send := al\<rparr>) = ups k p"
  by (simp add: ups_def)


lemma ups_seq_update: "ups k (p\<lparr>seq := n\<rparr>) = ups k p"
  by (simp add: ups_def)


lemma send_errors_not_events:
  assumes "set es \<subseteq> range (\<lambda>e. Log Error ''Failed to send ICMP message'' [Zap_Error e])"
  shows "count_list es (hostUp k) = 0" and "count_list es (hostDown k) = 0"
  using assms by (auto simp add: count_list_0_iff hostUp_def hostDown_def)

lemma hostUp_neq [simp]:
  "Log Debug m fs \<noteq> hostUp k" "hostDown k' \<noteq> hostUp k" "hostUp k \<noteq> hostDown k'"
  "Log Debug m fs \<noteq> hostDown k"
  by (simp_all add: hostUp_def hostDown_def)









lemma streaks_fold_addHost:
  "streaks_from 0 al \<Longrightarrow> streaks_from 0 (fold addHost as al)"
  by (rule fold_invariant) (simp_all add: addHost_def newInfo_def streaks_from_update)

lemma NewPing_ups:
  assumes "NewPingFromCommandLine ev cl = Inr p"
  shows "ups k p = 0" and "downs k p = 0"
  using NewPing_trace [OF assms]
  by (auto simp add: ups_def downs_def count_list_0_iff hostUp_def hostDown_def)

lemma NewPing_streaks:
  assumes "NewPingFromCommandLine ev cl = Inr p"
  shows "streaks_from 0 (send p)"
  unfolding NewPing_fields(8) [OF assms]
  by (rule streaks_fold_addHost) (simp add: streaks_from_def)








section \<open>The counters stay within the number of outcomes\<close>

lemma streaks_upto_update:
  "streaks_upto n al \<Longrightarrow> pingsInState v \<le> n \<Longrightarrow> streaks_upto n (AList.update k v al)"
  by (induction al) (auto simp add: streaks_upto_def)

lemma streaks_upto_lookup:
  "streaks_upto n al \<Longrightarrow> map_of al k = Some v \<Longrightarrow> pingsInState v \<le> n"
  by (induction al) (auto simp add: streaks_upto_def split: if_splits)

lemma streaks_upto_mono: "streaks_upto n al \<Longrightarrow> n \<le> m \<Longrightarrow> streaks_upto m al"
  by (induction al) (auto simp add: streaks_upto_def)

lemma counters_within_mono: "counters_within n p \<Longrightarrow> n \<le> m \<Longrightarrow> counters_within m p"
  using streaks_upto_mono [of "int n" "send p" "int m"] by (simp add: counters_within_def)

lemma counters_within_seq: "counters_within n p \<Longrightarrow> counters_within n (p\<lparr>seq := s\<rparr>)"
  by (simp add: counters_within_def)

lemma counters_within_sendHost:
  assumes "counters_within n p"
  shows "counters_within n (sendHost w k p)"
proof (cases w k p rule: sendHost_cases)
  case skip
  then show ?thesis using assms by simp
next
  case (sent v0 v es)
  have "0 \<le> pingsInState v" "pingsInState v \<le> int n"
    using assms sent(1,2) streaks_from_lookup [of 0 "send p" k v0]
      streaks_upto_lookup [of "int n" "send p" k v0]
    by (simp_all add: counters_within_def)
  then show ?thesis
    using assms by (simp add: counters_within_def sent(4) streaks_from_update streaks_upto_update)
qed

lemma counters_within_recvCase:
  assumes "counters_within n p"
  shows "counters_within (Suc n) (recvCase i p)"
proof (cases i p rule: recvCase_cases)
  case drop
  then show ?thesis using counters_within_mono [OF assms, of "Suc n"] by simp
next
  case (count v0 v)
  have "0 \<le> pingsInState v0" "pingsInState v0 \<le> int n"
    using assms count(1) streaks_from_lookup [of 0 "send p" _ v0]
      streaks_upto_lookup [of "int n" "send p" _ v0]
    by (simp_all add: counters_within_def)
  then have "0 \<le> pingsInState v" "pingsInState v \<le> int (Suc n)" by (simp_all add: count(2))
  then show ?thesis
    using counters_within_mono [OF assms, of "Suc n"]
    by (simp add: counters_within_def count(4) emit_simps streaks_from_update streaks_upto_update)
next
  case (alive v0 v)
  have "0 \<le> pingsInState v0" "pingsInState v0 \<le> int n"
    using assms alive(1) streaks_from_lookup [of 0 "send p" _ v0]
      streaks_upto_lookup [of "int n" "send p" _ v0]
    by (simp_all add: counters_within_def)
  then have "0 \<le> pingsInState v" "pingsInState v \<le> int (Suc n)" by (simp_all add: alive(2))
  moreover have "streaks_upto (int (Suc n)) (send p)"
    using assms streaks_upto_mono [of "int n" "send p" "int (Suc n)"]
    by (simp add: counters_within_def)
  ultimately show ?thesis
    using assms
    by (simp add: counters_within_def alive(4) emit_simps handleHostAlive_frame handleHostAlive_up
        streaks_from_update streaks_upto_update)
qed

lemma counters_within_timerHost:
  assumes "counters_within n p"
  shows "counters_within (Suc n) (timerHost k p)"
proof (cases k p rule: timerHost_cases)
  case skip
  then show ?thesis using counters_within_mono [OF assms, of "Suc n"] by simp
next
  case (count v0 v)
  have "0 \<le> pingsInState v0" "pingsInState v0 \<le> int n"
    using assms count(1) streaks_from_lookup [of 0 "send p" _ v0]
      streaks_upto_lookup [of "int n" "send p" _ v0]
    by (simp_all add: counters_within_def)
  then have "0 \<le> pingsInState v" "pingsInState v \<le> int (Suc n)" by (simp_all add: count(2))
  then show ?thesis
    using counters_within_mono [OF assms, of "Suc n"]
    by (simp add: counters_within_def count(4) emit_simps streaks_from_update streaks_upto_update)
next
  case (dead v0 v)
  have "0 \<le> pingsInState v0" "pingsInState v0 \<le> int n"
    using assms dead(1) streaks_from_lookup [of 0 "send p" _ v0]
      streaks_upto_lookup [of "int n" "send p" _ v0]
    by (simp_all add: counters_within_def)
  then have "0 \<le> pingsInState v" "pingsInState v \<le> int (Suc n)" by (simp_all add: dead(2))
  moreover have "streaks_upto (int (Suc n)) (send p)"
    using assms streaks_upto_mono [of "int n" "send p" "int (Suc n)"]
    by (simp add: counters_within_def)
  ultimately show ?thesis
    using assms
    by (simp add: counters_within_def dead(4) emit_simps handleHostDead_frame handleHostDead_down(1)
        streaks_from_update streaks_upto_update)
qed

lemma fold_counting:
  assumes "P n p" and "\<And>x m q. P m q \<Longrightarrow> P (Suc m) (f x q)"
  shows "P (n + length xs) (fold f xs p)"
  using assms(1)
proof (induction xs arbitrary: n p)
  case Nil
  then show ?case by simp
next
  case (Cons x xs)
  have "P (Suc n) (f x p)" using Cons.prems by (rule assms(2))
  then have "P (Suc n + length xs) (fold f xs (f x p))" by (rule Cons.IH)
  then show ?case by simp
qed

lemma timerHost_keys: "map fst (send (timerHost k p)) = map fst (send p)"
  by (cases k p rule: timerHost_cases)
    (simp_all add: emit_simps handleHostDead_frame keys_update_present)

lemma fold_timerHost_keys: "map fst (send (fold timerHost ks p)) = map fst (send p)"
  by (induction ks arbitrary: p) (simp_all add: timerHost_keys)

lemma Run_counters_within:
  assumes "Run rs p = Inr p'" and "counters_within n p"
  shows "counters_within (n + outcomes (length (send p)) rs) p'"
  using assms
proof (induction rs arbitrary: p n)
  case Nil
  then show ?case by simp
next
  case (Cons r rs)
  show ?case
  proof -
    let ?p1 = "p\<lparr>seq := seq p + 1\<rparr>"
    let ?p2 = "fold (sendHost (writeTo r)) (map fst (send ?p1)) ?p1"
    let ?p3 = "fold recvCase (replies r) ?p2"
    let ?p4 = "fold timerHost (map fst (send ?p3)) ?p3"
    have k2: "map fst (send ?p2) = map fst (send p)"
      using fold_sendHost_frame [of "writeTo r" "map fst (send ?p1)" ?p1] by simp
    have k3: "map fst (send ?p3) = map fst (send p)"
      using fold_recvCase_frame [of "replies r" ?p2] k2 by simp
    have k4: "map fst (send ?p4) = map fst (send p)"
      using fold_timerHost_keys [of "map fst (send ?p3)" ?p3] k3 by simp
    have l3: "length (map fst (send ?p3)) = length (send p)"
      unfolding k3 by simp
    have l4: "length (send ?p4) = length (send p)"
      using arg_cong [OF k4, of length] by simp
    have "counters_within n ?p1" using Cons.prems(2) by (rule counters_within_seq)
    then have "counters_within n ?p2"
      by (rule fold_invariant) (rule counters_within_sendHost)
    then have "counters_within (n + length (replies r)) ?p3"
      by (rule fold_counting) (rule counters_within_recvCase)
    then have "counters_within (n + length (replies r) + length (map fst (send ?p3))) ?p4"
      by (rule fold_counting) (rule counters_within_timerHost)
    then have c4: "counters_within (n + length (replies r) + length (send p)) ?p4"
      unfolding l3 .
    have "Run rs ?p4 = Inr p'"
      using Cons.prems(1)
      by (simp add: sendRequests_Inr gatherResponses_def timerCase_def Let_def)
    then have "counters_within (n + length (replies r) + length (send p)
        + outcomes (length (send ?p4)) rs) p'"
      using c4 by (rule Cons.IH)
    then show ?thesis unfolding l4 by (simp add: add.assoc)
  qed
qed

lemma streaks_upto_fold_addHost:
  "streaks_upto 0 al \<Longrightarrow> streaks_upto 0 (fold addHost as al)"
  by (rule fold_invariant) (simp_all add: addHost_def newInfo_def streaks_upto_update)

lemma Run_counters_bounded:
  assumes "NewPingFromCommandLine ev cl = Inr p0" and "Run rs p0 = Inr p"
  shows "counters_within (outcomes (hostCount p0) rs) p"
proof -
  have "streaks_upto 0 (send p0)"
    unfolding NewPing_fields(8) [OF assms(1)]
    by (rule streaks_upto_fold_addHost) (simp add: streaks_upto_def)
  then have "counters_within 0 p0"
    using NewPing_streaks [OF assms(1)] NewPing_fields(4) [OF assms(1)]
    by (simp add: counters_within_def)
  from Run_counters_within [OF assms(2) this] show ?thesis
    by (simp add: hostCount_def)
qed

section \<open>Concrete runs and errors\<close>

lemma booted_is_constructed: "NewPingFromCommandLine env0 (cl0 [h1]) = Inr booted"
  by (simp add: engine_defs scenario_defs booted_def second_def)

lemma length_addrs256: "length addrs256 = 256"
  by (simp add: addrs256_def)

lemma explicit_zero_is_unconfigured:
  "NewPingFromCommandLine ev (cl\<lparr>group_alive := Some 0\<rparr>)
   = NewPingFromCommandLine ev (cl\<lparr>group_alive := None\<rparr>)"
  by (simp add: NewPingFromCommandLine_def readArguments_def Let_def)

section \<open>Rounds of an engine with one host\<close>

lemma ups_sendHost: "ups k (sendHost w k' p) = ups k p"
proof (cases w k' p rule: sendHost_cases)
  case skip
  then show ?thesis by simp
next
  case (sent v0 v es)
  show ?thesis
    using send_errors_not_events(1) [OF sent(3)] by (simp add: sent(4) ups_def)
qed

lemma ups_timerHost: "ups k (timerHost k' p) = ups k p"
  by (cases k' p rule: timerHost_cases)
    (simp_all add: handleHostDead_ups ups_emit ups_send_update)

lemma handleHostAlive_ups: "ups k (handleHostAlive p) = ups k p"
  by (simp add: handleHostAlive_def runCommand_def emit_def Let_def ups_def hostUp_def)

lemma handleHostDead_downs: "downs k (handleHostDead p) = downs k p"
  by (simp add: handleHostDead_def runCommand_def emit_def Let_def downs_def hostDown_def)

lemma echoReply_ip: "icmpInfo.ip (echoReply p k) = k"
  by (simp add: echoReply_def)

lemma lone_timeout:
  assumes "lone k up n u p"
  shows "\<exists>p'. Run [outcome [] p] p = Inr p' \<and> lone k False (if up then 1 else n + 1) u p'"
proof -
  from assms obtain v where v: "send p = [(k, v)]" "isUp v = up" "pingsInState v = n"
    and a: "aliveCount p = 3" and u: "ups k p = u"
    by (auto simp add: lone_def)
  let ?p1 = "p\<lparr>seq := seq p + 1\<rparr>"
  let ?p2 = "sendHost writes_ok k ?p1"
  let ?p3 = "timerHost k ?p2"
  have s2: "send ?p2 = [(k, v\<lparr>gotReply := False\<rparr>)]"
    using v(1) by (simp add: sendHost_def writes_ok_def)
  have r: "Run [outcome [] p] p = Inr ?p3"
    using v(1) s2 by (simp add: outcome_def sendRequests_Inr gatherResponses_def timerCase_def Let_def)
  have "ups k ?p3 = u"
    using u by (simp add: ups_timerHost ups_sendHost ups_seq_update)
  moreover have "aliveCount ?p3 = 3"
    using a by (cases k ?p2 rule: timerHost_cases)
      (simp_all add: emit_simps handleHostDead_frame sendHost_def writes_ok_def v(1))
  moreover have "\<exists>v'. send ?p3 = [(k, v')] \<and> isUp v' = False
      \<and> pingsInState v' = (if up then 1 else n + 1)"
    using s2 v(2,3)
    by (auto simp add: timerHost_def Let_def emit_simps handleHostDead_frame)
  ultimately show ?thesis using r by (auto simp add: lone_def)
qed

lemma lone_reply:
  assumes "lone k up n u p"
  shows "\<exists>p'. Run [outcome [k] p] p = Inr p'
     \<and> lone k True (if up then n + 1 else 1)
          (u + (if (if up then n + 1 else 1) = 3 then 1 else 0)) p'"
proof -
  from assms obtain v where v: "send p = [(k, v)]" "isUp v = up" "pingsInState v = n"
    and a: "aliveCount p = 3" and u: "ups k p = u"
    by (auto simp add: lone_def)
  let ?p1 = "p\<lparr>seq := seq p + 1\<rparr>"
  let ?p2 = "sendHost writes_ok k ?p1"
  let ?p3 = "recvCase (echoReply p k) ?p2"
  let ?p4 = "timerHost k ?p3"
  let ?m = "if up then n + 1 else 1"
  have s2: "send ?p2 = [(k, v\<lparr>gotReply := False\<rparr>)]"
    using v(1) by (simp add: sendHost_def writes_ok_def)
  have f2: "pid ?p2 = pid p" "seq ?p2 = seq p + 1" "aliveCount ?p2 = 3" "ups k ?p2 = u"
    using a u v(1) by (simp_all add: sendHost_def writes_ok_def ups_def)
  have s3: "\<exists>v'. send ?p3 = [(k, v')] \<and> isUp v' \<and> gotReply v' \<and> pingsInState v' = ?m"
    using s2 f2(1,2) v(2,3)
    by (auto simp add: recvCase_def echoReply_def uint16_def Let_def emit_simps handleHostAlive_frame)
  have u3: "ups k ?p3 = u + (if ?m = 3 then 1 else 0)"
  proof (cases "echoReply p k" ?p2 rule: recvCase_cases)
    case drop
    with s2 s3 show ?thesis by auto
  next
    case (count v0 v')
    have "v0 = v\<lparr>gotReply := False\<rparr>" using count(1) s2 by (simp add: echoReply_ip)
    then have "pingsInState v' = ?m" using count(2) v(2,3) by simp
    then have "?m \<noteq> 3" using count(3) f2(3) by simp
    then show ?thesis using f2(4) by (simp add: count(4) ups_emit ups_send_update echoReply_ip)
  next
    case (alive v0 v')
    have "v0 = v\<lparr>gotReply := False\<rparr>" using alive(1) s2 by (simp add: echoReply_ip)
    then have "pingsInState v' = ?m" using alive(2) v(2,3) by simp
    then have "?m = 3" using alive(3) f2(3) by simp
    then show ?thesis
      using f2(4)
      by (simp add: alive(4) handleHostAlive_ups ups_emit ups_send_update echoReply_ip)
  qed
  have a3: "aliveCount ?p3 = 3"
    using f2(3) by (cases "echoReply p k" ?p2 rule: recvCase_cases)
      (simp_all add: emit_simps handleHostAlive_frame)
  from s3 obtain v' where v': "send ?p3 = [(k, v')]" "isUp v'" "gotReply v'" "pingsInState v' = ?m"
    by blast
  have t: "?p4 = ?p3" using v' by (simp add: timerHost_def)
  have "send ?p1 = [(k, v)]" using v(1) by simp
  then have r: "Run [outcome [k] p] p = Inr ?p4"
    using s2 v'(1) by (simp add: outcome_def sendRequests_Inr gatherResponses_def timerCase_def Let_def)
  show ?thesis
    using r u3 a3 v' unfolding t by (auto simp add: lone_def)
qed

lemma lone_start:
  "\<exists>p0. NewPingFromCommandLine (ev\<lparr>listenPacket := None\<rparr>) (cl\<lparr>alive_count := Some 3, args := [a]\<rparr>) = Inr p0
     \<and> lone (keyOf ev a) False 0 0 p0"
proof -
  obtain p0 where p0: "NewPingFromCommandLine (ev\<lparr>listenPacket := None\<rparr>)
      (cl\<lparr>alive_count := Some 3, args := [a]\<rparr>) = Inr p0"
    using NewPing_cases(2) [of "ev\<lparr>listenPacket := None\<rparr>" "cl\<lparr>alive_count := Some 3, args := [a]\<rparr>"]
    by auto
  have "lone (keyOf ev a) False 0 0 p0"
    using NewPing_fields(1,7,8) [OF p0] NewPing_ups(1) [OF p0]
    by (simp add: lone_def keyOf_def addHost_def newInfo_def)
  with p0 show ?thesis by blast
qed

section \<open>A host that keeps replying is not announced again\<close>

text \<open>
  The reply that announces a host alive leaves it settled (\<open>announced_then_settled\<close>), no
  step of the same round unsettles it or announces it again (\<open>settled_recvCase\<close>,
  \<open>settled_timerHost\<close>), and through any further rounds in each of which the host
  answers, whatever else happens in them, it stays settled and is not announced again
  (\<open>Run_settled\<close>).
\<close>

lemma map_of_update_other: "k' \<noteq> k \<Longrightarrow> map_of (AList.update k' v al) k = map_of al k"
  by (simp add: update_conv')

lemma map_of_update_same: "map_of (AList.update k v al) k = Some v"
  by (simp add: update_conv')

lemma settled_weaken: "settled k got p \<Longrightarrow> settled k False p"
  by (auto simp add: settled_def)

lemma settled_seq: "settled k got p \<Longrightarrow> settled k got (p\<lparr>seq := s\<rparr>)"
  by (simp add: settled_def)

lemma settled_sendHost:
  assumes "settled k False p"
  shows "settled k False (sendHost w k' p)"
proof (cases w k' p rule: sendHost_cases)
  case skip
  then show ?thesis using assms by simp
next
  case (sent v0 v es)
  show ?thesis
  proof (cases "k' = k")
    case True
    then show ?thesis
      using assms sent(1)
      by (auto simp add: settled_def sendHost_def Let_def emit_simps map_of_update_same
          split: option.splits)
  next
    case False
    then show ?thesis
      using assms by (simp add: settled_def sent(4) map_of_update_other)
  qed
qed

lemma hostUp_inject: "hostUp k' = hostUp k \<longleftrightarrow> k' = k"
  by (simp add: hostUp_def)

lemma settled_recvCase:
  assumes "settled k got p"
  shows "settled k got (recvCase i p) \<and> ups k (recvCase i p) = ups k p"
proof (cases i p rule: recvCase_cases)
  case drop
  then show ?thesis using assms by simp
next
  case (count v0 v)
  show ?thesis
  proof (cases "icmpInfo.ip i = k")
    case True
    then have "isUp v0" "uint (aliveCount p) \<le> pingsInState v0"
      using assms count(1) by (auto simp add: settled_def)
    moreover have "recvCase i p \<noteq> p \<Longrightarrow> map_of (send (recvCase i p)) k \<noteq> None"
      using True by (simp add: count(4) emit_simps map_of_update_same)
    ultimately show ?thesis
      using assms count(1) True
      by (auto simp add: settled_def recvCase_def Let_def emit_simps map_of_update_same
          handleHostAlive_frame ups_emit ups_send_update handleHostAlive_ups hostUp_inject)
  next
    case False
    then show ?thesis
      using assms
      by (simp add: settled_def count(4) emit_simps map_of_update_other ups_emit ups_send_update)
  qed
next
  case (alive v0 v)
  show ?thesis
  proof (cases "icmpInfo.ip i = k")
    case True
    then have "isUp v0" "uint (aliveCount p) \<le> pingsInState v0"
      using assms alive(1) by (auto simp add: settled_def)
    then have "pingsInState v \<noteq> uint (aliveCount p)" by (simp add: alive(2))
    then show ?thesis using alive(3) by simp
  next
    case False
    then show ?thesis
      using assms
      by (simp add: settled_def alive(4) emit_simps map_of_update_other ups_emit ups_send_update
          handleHostAlive_frame handleHostAlive_ups hostUp_inject)
  qed
qed

lemma recvCase_match_entry:
  assumes "map_of (send p) (icmpInfo.ip i) = Some v0" and "uint16 (ID (echo i)) = pid p"
    and "uint16 (Seq (echo i)) = seq p"
  shows "map_of (send (recvCase i p)) (icmpInfo.ip i) =
           Some (if \<not> isUp v0 then v0\<lparr>isUp := True, pingsInState := 1, gotReply := True\<rparr>
                 else v0\<lparr>pingsInState := pingsInState v0 + 1, gotReply := True\<rparr>)"
    and "aliveCount (recvCase i p) = aliveCount p"
  using assms
  by (simp_all add: recvCase_def Let_def emit_simps handleHostAlive_frame map_of_update_same)

lemma settled_answer:
  assumes "settled k got p" and "icmpInfo.ip i = k" and "uint16 (ID (echo i)) = pid p"
    and "uint16 (Seq (echo i)) = seq p"
  shows "settled k True (recvCase i p)"
proof -
  from assms(1,2) obtain v where v: "map_of (send p) (icmpInfo.ip i) = Some v" "isUp v"
    "uint (aliveCount p) \<le> pingsInState v"
    by (auto simp add: settled_def)
  show ?thesis
    using recvCase_match_entry [OF v(1) assms(3,4)] v(2,3) assms(2)
    by (auto simp add: settled_def)
qed

lemma timerHost_frame: "pid (timerHost k p) = pid p \<and> seq (timerHost k p) = seq p"
  by (cases k p rule: timerHost_cases) (simp_all add: emit_simps handleHostDead_frame)

lemma fold_timerHost_frame:
  "pid (fold timerHost ks p) = pid p \<and> seq (fold timerHost ks p) = seq p"
  by (induction ks arbitrary: p) (simp_all add: timerHost_frame)

lemma settled_timerHost:
  assumes "settled k True p"
  shows "settled k True (timerHost k' p) \<and> ups k (timerHost k' p) = ups k p"
proof (cases k' p rule: timerHost_cases)
  case skip
  then show ?thesis using assms by simp
next
  case (count v0 v)
  have "k' \<noteq> k" using assms count(1,5) by (auto simp add: settled_def)
  then show ?thesis
    using assms
    by (simp add: settled_def count(4) emit_simps map_of_update_other ups_emit ups_send_update)
next
  case (dead v0 v)
  have "k' \<noteq> k" using assms dead(1,5) by (auto simp add: settled_def)
  then show ?thesis
    using assms
    by (simp add: settled_def dead(4) emit_simps map_of_update_other ups_emit ups_send_update
        handleHostDead_frame handleHostDead_ups)
qed

lemma fold_recvCase_settled:
  assumes "settled k got p"
  shows "settled k got (fold recvCase xs p) \<and> ups k (fold recvCase xs p) = ups k p"
  using assms
proof (induction xs arbitrary: p)
  case Nil
  then show ?case by simp
next
  case (Cons x xs)
  from settled_recvCase [OF Cons.prems, of x] Cons.IH [of "recvCase x p"]
  show ?case by simp
qed

lemma fold_recvCase_answer:
  assumes "settled k got p"
    and "list_ex (\<lambda>i. icmpInfo.ip i = k \<and> uint16 (ID (echo i)) = pid p
                     \<and> uint16 (Seq (echo i)) = seq p) xs"
  shows "settled k True (fold recvCase xs p)"
  using assms
proof (induction xs arbitrary: p)
  case Nil
  then show ?case by simp
next
  case (Cons x xs)
  show ?case
  proof (cases "icmpInfo.ip x = k \<and> uint16 (ID (echo x)) = pid p \<and> uint16 (Seq (echo x)) = seq p")
    case True
    then have "settled k True (recvCase x p)"
      using settled_answer [OF Cons.prems(1)] by simp
    then show ?thesis using fold_recvCase_settled [of k True "recvCase x p" xs] by simp
  next
    case False
    then have "list_ex (\<lambda>i. icmpInfo.ip i = k \<and> uint16 (ID (echo i)) = pid p
                     \<and> uint16 (Seq (echo i)) = seq p) xs"
      using Cons.prems(2) by auto
    then have "list_ex (\<lambda>i. icmpInfo.ip i = k \<and> uint16 (ID (echo i)) = pid (recvCase x p)
                     \<and> uint16 (Seq (echo i)) = seq (recvCase x p)) xs"
      using recvCase_frame [of x p] by simp
    moreover have "settled k got (recvCase x p)"
      using settled_recvCase [OF Cons.prems(1)] by simp
    ultimately show ?thesis using Cons.IH by simp
  qed
qed

lemma Run_settled:
  assumes "Run rs p = Inr p'" and "settled k False p" and "answered k (pid p) (seq p) rs"
  shows "settled k False p' \<and> ups k p' = ups k p"
  using assms
proof (induction rs arbitrary: p)
  case Nil
  then show ?case by simp
next
  case (Cons r rs)
  show ?case
  proof -
    let ?p1 = "p\<lparr>seq := seq p + 1\<rparr>"
    let ?p2 = "fold (sendHost (writeTo r)) (map fst (send ?p1)) ?p1"
    let ?p3 = "fold recvCase (replies r) ?p2"
    let ?p4 = "fold timerHost (map fst (send ?p3)) ?p3"
    have "settled k False ?p1 \<and> ups k ?p1 = ups k p"
      using Cons.prems(2) by (simp add: settled_seq ups_seq_update)
    then have 2: "settled k False ?p2 \<and> ups k ?p2 = ups k p"
      by (rule fold_invariant) (simp add: settled_sendHost ups_sendHost)
    have f2: "pid ?p2 = pid p" "seq ?p2 = seq p + 1"
      using fold_sendHost_frame [of "writeTo r" "map fst (send ?p1)" ?p1] by simp_all
    have "list_ex (\<lambda>i. icmpInfo.ip i = k \<and> uint16 (ID (echo i)) = pid ?p2
                     \<and> uint16 (Seq (echo i)) = seq ?p2) (replies r)"
      using Cons.prems(3) unfolding f2 by simp
    then have "settled k True ?p3"
      using 2 fold_recvCase_answer [of k False ?p2 "replies r"] by blast
    moreover have u3: "ups k ?p3 = ups k p"
      using 2 fold_recvCase_settled [of k False ?p2 "replies r"] by simp
    ultimately have "settled k True ?p3 \<and> ups k ?p3 = ups k p" by simp
    then have 4: "settled k True ?p4 \<and> ups k ?p4 = ups k p"
      by (rule fold_invariant) (simp add: settled_timerHost)
    have f4: "pid ?p4 = pid p" "seq ?p4 = seq p + 1"
      using fold_timerHost_frame [of "map fst (send ?p3)" ?p3] fold_recvCase_frame [of "replies r" ?p2] f2
      by simp_all
    have r: "Run rs ?p4 = Inr p'"
      using Cons.prems(1)
      by (simp add: sendRequests_Inr gatherResponses_def timerCase_def Let_def)
    have "answered k (pid ?p4) (seq ?p4) rs"
      using Cons.prems(3) unfolding f4 by simp
    from Cons.IH [OF r settled_weaken this] 4 show ?thesis by auto
  qed
qed

lemma announced_then_settled:
  assumes "ups k (recvCase i p) \<noteq> ups k p"
  shows "settled k True (recvCase i p)"
proof (cases i p rule: recvCase_cases)
  case drop
  with assms show ?thesis by simp
next
  case (count v0 v)
  with assms show ?thesis by (simp add: ups_emit ups_send_update)
next
  case (alive v0 v)
  have "icmpInfo.ip i = k"
    using assms
    by (auto simp add: alive(4) handleHostAlive_ups ups_emit ups_send_update hostUp_inject
        split: if_splits)
  then show ?thesis
    using alive(3,5,6)
    by (simp add: settled_def alive(4) emit_simps handleHostAlive_frame map_of_update_same)
qed

lemma uint16_in_range:
  assumes "0 \<le> n" and "n < 65536"
  shows "uint16 n = w \<longleftrightarrow> n = uint w"
proof
  assume "uint16 n = w"
  then have "uint w = uint (word_of_int n :: uint16)" by (simp add: uint16_def)
  also have "\<dots> = n" using assms by (simp add: uint_word_of_int take_bit_int_eq_self)
  finally show "n = uint w" by simp
next
  assume "n = uint w"
  then show "uint16 n = w" by (simp add: uint16_def)
qed

section \<open>Failures inside a round\<close>

text \<open>
  Two states that differ in their effects only stay so under every step of a round,
  whatever the writes to the hosts return: a failed \<^verbatim>\<open>WriteTo\<close> adds a log record and
  nothing else.
\<close>

lemma unlogged_eqD: "unlogged p = unlogged q \<Longrightarrow> q = p\<lparr>trace := trace q\<rparr>"
  by (cases p, cases q) (simp add: unlogged_def)

lemma unlogged_send:
  assumes "unlogged p = unlogged q"
  shows "send p = send q"
proof -
  have "send (unlogged p) = send (unlogged q)" by (simp only: assms)
  then show ?thesis by (simp add: unlogged_def)
qed

lemma unlogged_seq_eq:
  assumes "unlogged p = unlogged q"
  shows "seq p = seq q"
proof -
  have "seq (unlogged p) = seq (unlogged q)" by (simp only: assms)
  then show ?thesis by (simp add: unlogged_def)
qed

lemma unlogged_sendHost_trace:
  "unlogged (sendHost w k (p\<lparr>trace := t\<rparr>)) = unlogged (sendHost w' k p)"
  by (simp add: sendHost_def Let_def emit_def unlogged_def split: option.splits)

lemma unlogged_handleHostAlive_trace:
  "unlogged (handleHostAlive (p\<lparr>trace := t\<rparr>)) = unlogged (handleHostAlive p)"
  by (simp add: handleHostAlive_def runCommand_def emit_def Let_def unlogged_def)

lemma unlogged_handleHostDead_trace:
  "unlogged (handleHostDead (p\<lparr>trace := t\<rparr>)) = unlogged (handleHostDead p)"
  by (simp add: handleHostDead_def runCommand_def emit_def Let_def unlogged_def)


lemma unlogged_trace_update: "unlogged (p\<lparr>trace := t\<rparr>) = unlogged p"
  by (simp add: unlogged_def)

lemma unlogged_recvCase_trace:
  "unlogged (recvCase i (p\<lparr>trace := t\<rparr>)) = unlogged (recvCase i p)"
  by (simp add: recvCase_def Let_def emit_def unlogged_handleHostAlive_trace unlogged_trace_update
      split: option.splits)

lemma unlogged_timerHost_trace:
  "unlogged (timerHost k (p\<lparr>trace := t\<rparr>)) = unlogged (timerHost k p)"
  by (simp add: timerHost_def Let_def emit_def unlogged_handleHostDead_trace unlogged_trace_update
      split: option.splits)


lemma unlogged_recvCase:
  assumes "unlogged p = unlogged q"
  shows "unlogged (recvCase i p) = unlogged (recvCase i q)"
proof -
  have "unlogged (recvCase i q) = unlogged (recvCase i (p\<lparr>trace := trace q\<rparr>))"
    using unlogged_eqD [OF assms] by simp
  then show ?thesis by (simp only: unlogged_recvCase_trace)
qed

lemma unlogged_timerHost:
  assumes "unlogged p = unlogged q"
  shows "unlogged (timerHost k p) = unlogged (timerHost k q)"
proof -
  have "unlogged (timerHost k q) = unlogged (timerHost k (p\<lparr>trace := trace q\<rparr>))"
    using unlogged_eqD [OF assms] by simp
  then show ?thesis by (simp only: unlogged_timerHost_trace)
qed

lemma unlogged_sendHost:
  assumes "unlogged p = unlogged q"
  shows "unlogged (sendHost w k p) = unlogged (sendHost w' k q)"
proof -
  have "unlogged (sendHost w' k q) = unlogged (sendHost w' k (p\<lparr>trace := trace q\<rparr>))"
    using unlogged_eqD [OF assms] by simp
  then show ?thesis by (simp only: unlogged_sendHost_trace [where w' = w])
qed

lemma unlogged_fold:
  assumes "unlogged p = unlogged q"
    and "\<And>x p q. unlogged p = unlogged q \<Longrightarrow> unlogged (f x p) = unlogged (g x q)"
  shows "unlogged (fold f xs p) = unlogged (fold g xs q)"
  using assms(1) by (induction xs arbitrary: p q) (simp_all add: assms(2))

lemma unlogged_seq:
  assumes "unlogged p = unlogged q"
  shows "unlogged (p\<lparr>seq := seq p + 1\<rparr>) = unlogged (q\<lparr>seq := seq q + 1\<rparr>)"
proof -
  have a: "unlogged (x\<lparr>seq := s\<rparr>) = (unlogged x)\<lparr>seq := s\<rparr>" for x s
    by (simp add: unlogged_def)
  show ?thesis unfolding a by (simp only: assms unlogged_seq_eq [OF assms])
qed

lemma Run_total: "\<exists>p'. Run rs p = Inr p'"
  by (induction rs arbitrary: p) (simp_all add: sendRequests_Inr Let_def)

lemma main_error_iff: "main ev cl rs = Inl e \<longleftrightarrow> listenPacket ev = Some e"
proof (cases "listenPacket ev")
  case None
  then obtain p where p: "NewPingFromCommandLine ev cl = Inr p"
    using NewPing_cases(2) [of ev cl] by blast
  obtain p' where "Run rs p = Inr p'" using Run_total by blast
  then show ?thesis using None p by (simp add: main_def)
next
  case (Some e')
  then have "NewPingFromCommandLine ev cl = Inl e'"
    by (simp add: NewPing_cases(1))
  then show ?thesis using Some by (simp add: main_def)
qed

lemma unlogged_Run:
  assumes "unlogged p = unlogged q"
  shows "map_sum id unlogged (Run (map writes_succeed rs) p) = map_sum id unlogged (Run rs q)"
  using assms
proof (induction rs arbitrary: p q)
  case Nil
  then show ?case by simp
next
  case (Cons r rs)
  let ?p1 = "p\<lparr>seq := seq p + 1\<rparr>" and ?q1 = "q\<lparr>seq := seq q + 1\<rparr>"
  let ?p2 = "fold (sendHost writes_ok) (map fst (send ?p1)) ?p1"
  let ?q2 = "fold (sendHost (writeTo r)) (map fst (send ?q1)) ?q1"
  let ?p3 = "fold recvCase (replies r) ?p2" and ?q3 = "fold recvCase (replies r) ?q2"
  let ?p4 = "fold timerHost (map fst (send ?p3)) ?p3"
  let ?q4 = "fold timerHost (map fst (send ?q3)) ?q3"
  have 1: "unlogged ?p1 = unlogged ?q1"
    using Cons.prems by (rule unlogged_seq)
  have s1: "send ?p1 = send ?q1" using 1 by (rule unlogged_send)
  have "unlogged ?p2 = unlogged (fold (sendHost (writeTo r)) (map fst (send ?p1)) ?q1)"
    using 1 by (rule unlogged_fold) (rule unlogged_sendHost)
  then have 2: "unlogged ?p2 = unlogged ?q2" by (simp only: s1)
  have 3: "unlogged ?p3 = unlogged ?q3"
    using 2 by (rule unlogged_fold) (rule unlogged_recvCase)
  have s3: "send ?p3 = send ?q3" using 3 by (rule unlogged_send)
  have "unlogged ?p4 = unlogged (fold timerHost (map fst (send ?p3)) ?q3)"
    using 3 by (rule unlogged_fold) (rule unlogged_timerHost)
  then have 4: "unlogged ?p4 = unlogged ?q4" by (simp only: s3)
  have a: "Run (map writes_succeed (r # rs)) p = Run (map writes_succeed rs) ?p4"
    by (simp add: sendRequests_Inr gatherResponses_def timerCase_def Let_def writes_succeed_def)
  have b: "Run (r # rs) q = Run rs ?q4"
    by (simp add: sendRequests_Inr gatherResponses_def timerCase_def Let_def)
  show ?case unfolding a b using 4 by (rule Cons.IH)
qed

lemma malformed_Dropped: "malformed d \<Longrightarrow> snd (recvDatagram d) = Dropped"
  by (auto simp add: malformed_def recvDatagram_def split: option.splits peer.splits sum.splits
      body.splits)

lemma recv_malformed:
  assumes "malformed d"
  shows "snd (recv (ds @ d # ds')) = snd (recv (ds @ ds'))"
proof (induction ds)
  case Nil
  obtain l where "recvDatagram d = (l, Dropped)"
    using malformed_Dropped [OF assms] by (cases "recvDatagram d") simp
  then show ?case by simp
next
  case (Cons x ds)
  obtain l y where "recvDatagram x = (l, y)" by (cases "recvDatagram x")
  then show ?case using Cons by (cases y) simp_all
qed

lemma garbled_malformed: "malformed garbled" "malformed unread"
  by (simp_all add: malformed_def garbled_def unread_def)


lemma recv_example:
  "recv [unread, garbled, answer] =
     ([Log Error ''Failed to receive ICMP message'' [Zap_Error ''read failed''],
       Log Error ''Failed to parse ICMP message'' [Zap_Error ''message too short'']],
      [\<lparr>icmpInfo.ip = h1, echo = \<lparr>ID = 4242, Seq = 1, Data = []\<rparr>\<rparr>])"
  by (simp add: recvDatagram_def unread_def garbled_def answer_def ICMPTypeEchoReply_def)

section \<open>Errors that reach the caller\<close>

text \<open>
  Claim C5. Once the engine is constructed, \<^verbatim>\<open>Run\<close> never returns an error, whatever the
  rounds bring: \<^verbatim>\<open>Marshal\<close> succeeds on the echo request that \<^verbatim>\<open>sendRequests\<close> builds, which
  is the one error \<^verbatim>\<open>Run\<close> would hand back. The entry point \<^verbatim>\<open>main\<close> returns an error
  exactly when \<^verbatim>\<open>icmp.ListenPacket\<close> fails at construction, and then that error. Failed
  writes to hosts are absorbed: the run with the failures ends in the state of the run
  where every write succeeds, up to the log records of the failures. A datagram that
  cannot be read, has no UDP peer, does not parse, is no echo reply or has no echo body
  is dropped by the goroutine of \<^verbatim>\<open>recv\<close> and the channel carries what it would carry
  without it. A reply with an unknown address, a foreign identifier or another round's
  sequence number leaves the state as it was.
\<close>

theorem errors_absorbed:
  "(\<exists>p'. Run rs p = Inr p')
   \<and> (main ev cl rs = Inl e \<longleftrightarrow> listenPacket ev = Some e)
   \<and> map_sum id unlogged (Run (map writes_succeed rs) p) = map_sum id unlogged (Run rs p)
   \<and> (malformed d \<longrightarrow> snd (recv (ds @ d # ds')) = snd (recv (ds @ ds')))
   \<and> (icmpInfo.ip i \<notin> fst ` set (send p) \<or> uint16 (ID (echo i)) \<noteq> pid p
        \<or> uint16 (Seq (echo i)) \<noteq> seq p
      \<longrightarrow> recvCase i p = p)"
  using Run_total [of rs p] main_error_iff [of ev cl rs e] unlogged_Run [of p p rs]
    recv_malformed [of d ds ds'] recvCase_drop [of i p]
  by blast

theorem errors_absorbed_witness:
  "(\<exists>p'. Run [outcome [h1] booted\<lparr>writeTo := writes_fail\<rparr>] booted = Inr p')
   \<and> main env0 (cl0 [h1]) [outcome [h1] booted\<lparr>writeTo := writes_fail\<rparr>] \<noteq> Inl ''x''
   \<and> map_sum id unlogged (Run (map writes_succeed [outcome [h1] booted\<lparr>writeTo := writes_fail\<rparr>]) booted)
       = map_sum id unlogged (Run [outcome [h1] booted\<lparr>writeTo := writes_fail\<rparr>] booted)
   \<and> malformed garbled
   \<and> snd (recv ([unread] @ garbled # [answer])) = snd (recv ([unread] @ [answer]))
   \<and> uint16 (ID (echo foreign)) \<noteq> pid booted
   \<and> recvCase foreign booted = booted"
proof -
  have a: "uint16 (ID (echo foreign)) \<noteq> pid booted"
    by (simp add: foreign_def booted_def uint16_def)
  have b: "listenPacket env0 \<noteq> Some ''x''" by (simp add: env0_def)
  show ?thesis
    using a b garbled_malformed(1)
      errors_absorbed [of "[outcome [h1] booted\<lparr>writeTo := writes_fail\<rparr>]" booted env0 "cl0 [h1]"
        "''x''" garbled "[unread]" "[answer]" foreign]
    by blast
qed


section \<open>Replies that do not belong to the round\<close>

text \<open>
  Claim C6. A reply whose address is not a key of \<^verbatim>\<open>p.send\<close>, or whose identifier is not
  the engine's, or whose sequence number is not the round's, changes nothing: the reply
  branch returns the state as it was (every host's flag, streak and reply mark, the group
  counter and verdict, the effects), and the round ends as if the reply had not arrived,
  wherever it stood among the round's replies. The code compares identifier and sequence
  number after the conversion \<^verbatim>\<open>uint16(...)\<close>; for the values an ICMP message can carry
  (0 to 65535) that is the comparison of the numbers themselves. In particular a reply
  that carries the sequence number the engine had before \<^verbatim>\<open>p.seq++\<close> (the previous
  round's) and arrives in the round that follows leaves the whole run as it is without it.
\<close>

theorem mismatched_reply_dropped:
  "(icmpInfo.ip i \<notin> fst ` set (send p) \<or> uint16 (ID (echo i)) \<noteq> pid p
      \<or> uint16 (Seq (echo i)) \<noteq> seq p
    \<longrightarrow> recvCase i p = p
        \<and> gatherResponses (xs @ i # ys) p = gatherResponses (xs @ ys) p)
   \<and> (0 \<le> ID (echo i) \<and> ID (echo i) < 65536 \<and> ID (echo i) \<noteq> uint (pid p)
    \<longrightarrow> recvCase i p = p)
   \<and> (0 \<le> Seq (echo i) \<and> Seq (echo i) < 65536 \<and> Seq (echo i) \<noteq> uint (seq p)
    \<longrightarrow> recvCase i p = p)
   \<and> (uint16 (Seq (echo i)) = seq p
    \<longrightarrow> Run (r\<lparr>replies := xs @ i # ys\<rparr> # rs) p = Run (r\<lparr>replies := xs @ ys\<rparr> # rs) p)"
proof (intro conjI impI)
  assume m: "icmpInfo.ip i \<notin> fst ` set (send p) \<or> uint16 (ID (echo i)) \<noteq> pid p
      \<or> uint16 (Seq (echo i)) \<noteq> seq p"
  then show "recvCase i p = p" by (rule recvCase_drop)
  let ?q = "fold recvCase xs p"
  from m have "icmpInfo.ip i \<notin> fst ` set (send ?q) \<or> uint16 (ID (echo i)) \<noteq> pid ?q
      \<or> uint16 (Seq (echo i)) \<noteq> seq ?q"
    using fold_recvCase_frame [of xs p] by (metis set_map)
  then have "recvCase i ?q = ?q" by (rule recvCase_drop)
  then show "gatherResponses (xs @ i # ys) p = gatherResponses (xs @ ys) p"
    by (simp add: gatherResponses_def)
next
  assume "0 \<le> ID (echo i) \<and> ID (echo i) < 65536 \<and> ID (echo i) \<noteq> uint (pid p)"
  then have "uint16 (ID (echo i)) \<noteq> pid p" by (simp add: uint16_in_range)
  then show "recvCase i p = p" by (simp add: recvCase_drop)
next
  assume "0 \<le> Seq (echo i) \<and> Seq (echo i) < 65536 \<and> Seq (echo i) \<noteq> uint (seq p)"
  then have "uint16 (Seq (echo i)) \<noteq> seq p" by (simp add: uint16_in_range)
  then show "recvCase i p = p" by (simp add: recvCase_drop)
next
  assume s: "uint16 (Seq (echo i)) = seq p"
  show "Run (r\<lparr>replies := xs @ i # ys\<rparr> # rs) p = Run (r\<lparr>replies := xs @ ys\<rparr> # rs) p"
  proof -
    let ?p1 = "fold (sendHost (writeTo r)) (map fst (send p)) (p\<lparr>seq := seq p + 1\<rparr>)"
    let ?q = "fold recvCase xs ?p1"
    have "seq ?q = seq p + 1"
      using fold_recvCase_frame [of xs ?p1]
        fold_sendHost_frame [of "writeTo r" "map fst (send p)" "p\<lparr>seq := seq p + 1\<rparr>"]
      by simp
    then have "uint16 (Seq (echo i)) \<noteq> seq ?q" using s by simp
    then have "recvCase i ?q = ?q" by (simp add: recvCase_drop)
    then show ?thesis by (simp add: sendRequests_Inr gatherResponses_def)
  qed
qed

theorem mismatched_reply_dropped_witness:
  "uint16 (ID (echo foreign)) \<noteq> pid booted
   \<and> 0 \<le> ID (echo foreign) \<and> ID (echo foreign) < 65536 \<and> ID (echo foreign) \<noteq> uint (pid booted)
   \<and> 0 \<le> Seq (echo foreign) \<and> Seq (echo foreign) < 65536 \<and> Seq (echo foreign) \<noteq> uint (seq booted)
   \<and> recvCase foreign booted = booted
   \<and> gatherResponses ([] @ foreign # []) booted = gatherResponses ([] @ []) booted
   \<and> uint16 (Seq (echo stale)) = seq booted
   \<and> Run (outcome [] booted\<lparr>replies := [] @ stale # []\<rparr> # []) booted
     = Run (outcome [] booted\<lparr>replies := [] @ []\<rparr> # []) booted"
proof -
  have a: "uint16 (ID (echo foreign)) \<noteq> pid booted"
    "0 \<le> ID (echo foreign) \<and> ID (echo foreign) < 65536 \<and> ID (echo foreign) \<noteq> uint (pid booted)"
    "0 \<le> Seq (echo foreign) \<and> Seq (echo foreign) < 65536 \<and> Seq (echo foreign) \<noteq> uint (seq booted)"
    by (simp_all add: foreign_def booted_def uint16_def)
  have b: "uint16 (Seq (echo stale)) = seq booted"
    by (simp add: stale_def booted_def uint16_def)
  show ?thesis
    using a b mismatched_reply_dropped [of foreign booted "[]" "[]"]
      mismatched_reply_dropped [of stale booted "[]" "[]" "outcome [] booted" "[]"]
    by blast
qed

section \<open>A host threshold of 0\<close>



section \<open>Scenario A\<close>

text \<open>
  Claim C8. One monitored host, alive threshold 3, whatever the other settings. The rounds
  are: no reply, then three rounds with one reply each. After the first, the second and
  the third round the host has not been announced alive (\<^verbatim>\<open>handleHostAlive\<close> has not
  run for it); after the fourth round it has been announced alive exactly once, so the
  announcement is made in the fourth round, on the third consecutive reply.
\<close>

theorem scenario_A_up_on_fourth_round:
  "map_sum id (ups (keyOf ev a)) (scenarioA ev cl a [[]]) = Inr 0
   \<and> map_sum id (ups (keyOf ev a)) (scenarioA ev cl a [[], [keyOf ev a]]) = Inr 0
   \<and> map_sum id (ups (keyOf ev a)) (scenarioA ev cl a [[], [keyOf ev a], [keyOf ev a]]) = Inr 0
   \<and> map_sum id (ups (keyOf ev a))
        (scenarioA ev cl a [[], [keyOf ev a], [keyOf ev a], [keyOf ev a]]) = Inr 1"
proof -
  let ?k = "keyOf ev a"
  obtain p0 where p0: "NewPingFromCommandLine (ev\<lparr>listenPacket := None\<rparr>)
      (cl\<lparr>alive_count := Some 3, args := [a]\<rparr>) = Inr p0" and l0: "lone ?k False 0 0 p0"
    using lone_start by blast
  obtain p1 where p1: "Run [outcome [] p0] p0 = Inr p1" and l1: "lone ?k False 1 0 p1"
    using lone_timeout [OF l0] by auto
  obtain p2 where p2: "Run [outcome [?k] p1] p1 = Inr p2" and l2: "lone ?k True 1 0 p2"
    using lone_reply [OF l1] by auto
  obtain p3 where p3: "Run [outcome [?k] p2] p2 = Inr p3" and l3: "lone ?k True 2 0 p3"
    using lone_reply [OF l2] by auto
  obtain p4 where p4: "Run [outcome [?k] p3] p3 = Inr p4" and l4: "lone ?k True 3 1 p4"
    using lone_reply [OF l3] by auto
  have u: "ups ?k p1 = 0" "ups ?k p2 = 0" "ups ?k p3 = 0" "ups ?k p4 = 1"
    using l1 l2 l3 l4 by (simp_all add: lone_def)
  show ?thesis
    unfolding scenarioA_def session_def
    by (simp only: p0 p1 p2 p3 p4 play.simps sum.case map_sum.simps u id_apply)
qed

section \<open>Construction and thresholds of 0\<close>

text \<open>
  Claim C4 says that a threshold of 0 is rejected when the engine is constructed. It is
  not: with every threshold given as 0 and a socket that opens, the constructor returns an
  engine whose host thresholds and group dead threshold are 0 (the group alive threshold 0
  is read as unconfigured and becomes the address count).
\<close>

theorem zero_thresholds_accepted:
  "map_sum id aliveCount (NewPingFromCommandLine env0 cl_all_zero) = Inr 0
   \<and> map_sum id deadCount (NewPingFromCommandLine env0 cl_all_zero) = Inr 0
   \<and> map_sum id groupDead (NewPingFromCommandLine env0 cl_all_zero) = Inr 0
   \<and> map_sum id groupAlive (NewPingFromCommandLine env0 cl_all_zero) = Inr 1"
  by (simp add: engine_defs scenario_defs cl_all_zero_def)

text \<open>
  Claim C4, as the code has it. The constructor validates no threshold: it returns an
  error exactly when the socket cannot be opened, and otherwise an engine whose host alive
  threshold, host dead threshold and group dead threshold are the configured values, 0
  included, with the defaults 3, 3 and 0.
\<close>

theorem construction_validates_no_threshold:
  "(NewPingFromCommandLine ev cl = Inl e \<longleftrightarrow> listenPacket ev = Some e)
   \<and> (NewPingFromCommandLine ev cl = Inr p \<longrightarrow>
        listenPacket ev = None
        \<and> aliveCount p = (case alive_count cl of None \<Rightarrow> 3 | Some n \<Rightarrow> n)
        \<and> deadCount p = (case dead_count cl of None \<Rightarrow> 3 | Some n \<Rightarrow> n)
        \<and> groupDead p = (case group_dead cl of None \<Rightarrow> 0 | Some n \<Rightarrow> n))"
  using NewPing_cases(1) [of ev cl e] NewPing_Inr(1) [of ev cl p] NewPing_fields(1,2,3) [of ev cl p]
  by blast

theorem construction_validates_no_threshold_witness:
  "\<exists>p. NewPingFromCommandLine env0 cl_all_zero = Inr p \<and> listenPacket env0 = None
       \<and> aliveCount p = 0 \<and> deadCount p = 0 \<and> groupDead p = 0"
proof -
  obtain p where p: "NewPingFromCommandLine env0 cl_all_zero = Inr p"
    using NewPing_cases(2) [of env0 cl_all_zero] by (auto simp add: env0_def)
  show ?thesis
    using p construction_validates_no_threshold [of env0 cl_all_zero _ p]
    by (auto simp add: cl_all_zero_def cl0_def)
qed

section \<open>The group aggregator and its defaults\<close>

text \<open>
  Claim C7 says that the unconfigured group alive threshold is the number of monitored
  hosts. It is the number of addresses on the command line: an address given twice is one
  monitored host and counts twice.
\<close>

theorem duplicate_address_counted_twice:
  "group_alive (cl0 [h1, h1]) = None
   \<and> map_sum id groupAlive (NewPingFromCommandLine env0 (cl0 [h1, h1])) = Inr 2
   \<and> map_sum id hostCount (NewPingFromCommandLine env0 (cl0 [h1, h1])) = Inr 1"
  by (simp add: engine_defs scenario_defs)

text \<open>
  Claim C7, as the code has it. \<^verbatim>\<open>handleHostAlive\<close> adds 1 to the group counter; the
  group is alive afterwards iff it was alive or the new counter has reached the group
  alive threshold, and the alive command runs once iff the group was dead and the new
  counter has reached the threshold (never otherwise). \<^verbatim>\<open>handleHostDead\<close> subtracts 1;
  the group is alive afterwards iff it was alive and the new counter is above the group
  dead threshold, and the dead command runs once iff the group was alive and the new
  counter is at most the threshold. Unconfigured, the group dead threshold is 0;
  unconfigured or configured as 0, the group alive threshold is the number of addresses
  given on the command line, when fewer than 256 are given.
\<close>

theorem group_aggregator:
  "totalAlive (handleHostAlive p) = totalAlive p + 1
   \<and> isTotalAlive (handleHostAlive p) = (isTotalAlive p \<or> uint (groupAlive p) \<le> totalAlive p + 1)
   \<and> execs c (handleHostAlive p) =
       execs c p + (if \<not> isTotalAlive p \<and> uint (groupAlive p) \<le> totalAlive p + 1 \<and> c = cmdAlive p
                    then 1 else 0)
   \<and> totalAlive (handleHostDead p) = totalAlive p - 1
   \<and> isTotalAlive (handleHostDead p) = (isTotalAlive p \<and> uint (groupDead p) < totalAlive p - 1)
   \<and> execs c (handleHostDead p) =
       execs c p + (if isTotalAlive p \<and> totalAlive p - 1 \<le> uint (groupDead p) \<and> c = cmdDead p
                    then 1 else 0)
   \<and> (NewPingFromCommandLine ev cl = Inr p0 \<longrightarrow>
        (group_alive cl = None \<or> group_alive cl = Some 0 \<longrightarrow> length (args cl) < 256 \<longrightarrow>
           uint (groupAlive p0) = int (length (ips p0)) \<and> ips p0 = map (keyOf ev) (args cl))
        \<and> (group_dead cl = None \<longrightarrow> groupDead p0 = 0))"
proof -
  have a: "totalAlive (handleHostAlive p) = totalAlive p + 1"
    by (simp add: handleHostAlive_def runCommand_def emit_def Let_def)
  have b: "isTotalAlive (handleHostAlive p) = (isTotalAlive p \<or> uint (groupAlive p) \<le> totalAlive p + 1)"
    by (simp add: handleHostAlive_def runCommand_def emit_def Let_def)
  have c: "execs c (handleHostAlive p) =
       execs c p + (if \<not> isTotalAlive p \<and> uint (groupAlive p) \<le> totalAlive p + 1 \<and> c = cmdAlive p
                    then 1 else 0)"
    by (simp add: handleHostAlive_def runCommand_def emit_def Let_def execs_def)
  have d: "totalAlive (handleHostDead p) = totalAlive p - 1"
    by (simp add: handleHostDead_def runCommand_def emit_def Let_def)
  have e: "isTotalAlive (handleHostDead p) = (isTotalAlive p \<and> uint (groupDead p) < totalAlive p - 1)"
    by (auto simp add: handleHostDead_def runCommand_def emit_def Let_def)
  have f: "execs c (handleHostDead p) =
       execs c p + (if isTotalAlive p \<and> totalAlive p - 1 \<le> uint (groupDead p) \<and> c = cmdDead p
                    then 1 else 0)"
    by (simp add: handleHostDead_def runCommand_def emit_def Let_def execs_def)
  have g: "uint (groupAlive p0) = int (length (ips p0)) \<and> ips p0 = map (keyOf ev) (args cl)"
    if p0: "NewPingFromCommandLine ev cl = Inr p0"
      and u: "group_alive cl = None \<or> group_alive cl = Some 0" and l: "length (args cl) < 256"
  proof -
    have "groupAlive p0 = uint8_of_len (length (args cl))"
      using NewPing_groupAlive [OF p0] u by auto
    moreover have "uint (of_nat (length (args cl)) :: uint8) = int (length (args cl))"
      using l by (simp add: uint_nat unat_of_nat take_bit_nat_eq_self)
    moreover have "ips p0 = map (keyOf ev) (args cl)"
      using NewPing_fields(7) [OF p0] by (simp add: keyOf_def [abs_def])
    ultimately show ?thesis by (simp add: uint8_of_len_def)
  qed
  have h: "groupDead p0 = 0" if "NewPingFromCommandLine ev cl = Inr p0" and "group_dead cl = None"
    using NewPing_fields(3) [OF that(1)] that(2) by simp
  show ?thesis using a b c d e f g h by blast
qed

theorem group_aggregator_witness:
  "NewPingFromCommandLine env0 (cl0 [h1]) = Inr booted
   \<and> group_alive (cl0 [h1]) = None \<and> group_dead (cl0 [h1]) = None
   \<and> length (args (cl0 [h1])) < 256
   \<and> uint (groupAlive booted) = int (length (ips booted)) \<and> ips booted = map (keyOf env0) [h1]
   \<and> groupDead booted = 0
   \<and> totalAlive (handleHostAlive booted) = 1 \<and> isTotalAlive (handleHostAlive booted)
   \<and> execs ''up.sh'' (handleHostAlive booted) = 1
   \<and> totalAlive (handleHostDead (handleHostAlive booted)) = 0
   \<and> \<not> isTotalAlive (handleHostDead (handleHostAlive booted))
   \<and> execs ''down.sh'' (handleHostDead (handleHostAlive booted)) = 1"
proof -
  have c: "group_alive (cl0 [h1]) = None" "group_dead (cl0 [h1]) = None"
    "length (args (cl0 [h1])) < 256" "args (cl0 [h1]) = [h1]"
    by (simp_all add: cl0_def)
  have b: "totalAlive booted = 0" "\<not> isTotalAlive booted" "groupAlive booted = 1"
    "cmdAlive booted = ''up.sh''" "execs c booted = 0" "cmdDead booted = ''down.sh''"
    "groupDead booted = 0" for c
    by (simp_all add: booted_def execs_def)
  have a: "totalAlive (handleHostAlive booted) = 1" "isTotalAlive (handleHostAlive booted)"
    "groupDead (handleHostAlive booted) = 0" "cmdDead (handleHostAlive booted) = ''down.sh''"
    "execs ''down.sh'' (handleHostAlive booted) = 0" "execs ''up.sh'' (handleHostAlive booted) = 1"
    using group_aggregator [of booted "''down.sh''"] group_aggregator [of booted "''up.sh''"] b
    by (simp_all add: handleHostAlive_def runCommand_def emit_def)
  show ?thesis
    using booted_is_constructed c a
      group_aggregator [of booted "''up.sh''" env0 "cl0 [h1]" booted]
      group_aggregator [of "handleHostAlive booted" "''down.sh''"]
    by simp
qed

section \<open>Where the code leaves the specification\<close>

text \<open>
  Claim C1 (the group counter is the number of hosts that are up, between 0 and the number
  of hosts) does not hold of the code. One monitored host, default thresholds 3 and 3:
  after three rounds without a reply the counter is -1; after three replies, one round
  without a reply and three more replies it is 2.
\<close>

theorem group_counter_leaves_range:
  "map_sum id hostCount (session env0 (cl0 [h1]) []) = Inr 1
   \<and> map_sum id totalAlive (session env0 (cl0 [h1]) [[], [], []]) = Inr (- 1)
   \<and> map_sum id totalAlive (session env0 (cl0 [h1]) [[h1], [h1], [h1], [], [h1], [h1], [h1]]) = Inr 2"
  by (simp add: engine_defs scenario_defs)

text \<open>
  Claim C2 (a host that never became up is never reported down) does not hold of the code.
  One monitored host that never replied: in the third round it is announced dead and
  \<^verbatim>\<open>handleHostDead\<close> runs, which takes the counter to -1. When the host then replies three
  times it is announced alive, the counter returns to 0, and the group stays dead.
\<close>

theorem never_up_host_announced_dead:
  "map_sum id (tally h1) (session env0 (cl0 [h1]) [[], [], []]) = Inr (0, 1, - 1, False)
   \<and> map_sum id (tally h1) (session env0 (cl0 [h1]) [[], [], [], [h1], [h1], [h1]]) = Inr (1, 1, 0, False)"
  by (simp add: engine_defs scenario_defs tally_def)

text \<open>
  Claim C3 (a host announced alive is not announced alive again before it was announced
  dead) does not hold of the code. Three replies announce the host alive; one round without
  a reply, then three more replies announce it alive a second time, with no announcement
  of its death in between, and the counter is 2 with one monitored host.
\<close>

theorem flap_announces_alive_again:
  "map_sum id (tally h1) (session env0 (cl0 [h1]) [[h1], [h1], [h1]]) = Inr (1, 0, 1, True)
   \<and> map_sum id (tally h1) (session env0 (cl0 [h1]) [[h1], [h1], [h1], [], [h1], [h1], [h1]])
       = Inr (2, 0, 2, True)"
  by (simp add: engine_defs scenario_defs tally_def)

text \<open>
  Claim C10 (a group alive threshold of 0, or none, becomes the number of addresses) does
  not hold for 256 addresses: \<^verbatim>\<open>uint8(len(p.ips))\<close> is 0.
\<close>

theorem default_group_threshold_wraps:
  "length (args (cl0 addrs256)) = 256 \<and> group_alive (cl0 addrs256) = None
   \<and> map_sum id groupAlive (NewPingFromCommandLine env0 (cl0 addrs256)) = Inr 0"
proof -
  obtain p where p: "NewPingFromCommandLine env0 (cl0 addrs256) = Inr p"
    using NewPing_cases(2) [of env0 "cl0 addrs256"] by (auto simp add: env0_def)
  have "groupAlive p = 0"
    using NewPing_groupAlive [OF p] by (simp add: cl0_def length_addrs256 uint8_of_len_def)
  then show ?thesis using p by (simp add: cl0_def length_addrs256)
qed

end
